theory Spec2Isabelle
  imports Complex_Main "HOL-Library.Sublist"
begin

section \<open>ham-radio-recorder: storage helpers, Command Channel and recording engine\<close>

text \<open>
  A shallow embedding of the TypeScript sources of the extension: the storage helpers
  (\<open>lib/storage\<close>), the WebSocket client (\<open>lib/ws-client\<close>) and the background service
  worker that drives a recording. JavaScript numbers that hold integers (minutes, Hz,
  seconds) are \<open>int\<close>; strings are \<open>string\<close> (the placeholders and time strings the
  code looks for are ASCII); \<open>null\<close>/\<open>undefined\<close> is \<open>None\<close>; \<open>NaN\<close> is \<open>None\<close> of an
  \<open>int option\<close>. \<open>console.log\<close> output is not part of any state below.
\<close>

subsection \<open>Strings and numbers of the JavaScript runtime\<close>

definition is_digit :: "char \<Rightarrow> bool" where
  "is_digit c = (c \<in> set ''0123456789'')"

definition digit_val :: "char \<Rightarrow> int" where
  "digit_val c = int (of_char c) - 48"

text \<open>
  \<open>Number(s)\<close> on the fragment the time strings use: a non-empty string of decimal
  digits is read in base ten (leading zeros allowed). Every other string is \<open>None\<close>:
  there JavaScript gives \<open>NaN\<close>, or reads a form (sign, fraction, exponent, hex,
  surrounding blanks, the empty string) that no \<open>HH:MM\<close> string splits into.
\<close>

definition Number_dec :: "string \<Rightarrow> int option" where
  "Number_dec s =
     (if s \<noteq> [] \<and> list_all is_digit s
      then Some (foldl (\<lambda>acc c. 10 * acc + digit_val c) 0 s)
      else None)"

text \<open>\<open>s.split(":")\<close>: the pieces between colons; a string without colon is one piece.\<close>

fun split_colon :: "string \<Rightarrow> string list" where
  "split_colon [] = [[]]"
| "split_colon (c # cs) =
     (if c = CHR '':'' then [] # split_colon cs
      else (case split_colon cs of
              [] \<Rightarrow> [[c]]
            | p # ps \<Rightarrow> (c # p) # ps))"

text \<open>
  \<open>const [a, b] = xs.map(Number)\<close>: the first two elements; a missing element is
  \<open>undefined\<close>, which the arithmetic that follows turns into \<open>NaN\<close>.
\<close>

definition first_two_numbers :: "string list \<Rightarrow> int option \<times> int option" where
  "first_two_numbers ps =
     (case map Number_dec ps of
        [] \<Rightarrow> (None, None)
      | [a] \<Rightarrow> (a, None)
      | a # b # _ \<Rightarrow> (a, b))"

subsection \<open>\<open>computeDurationMin\<close>\<close>

text \<open>
  The result is \<open>None\<close> where one of the four numbers is: there the source computes
  with \<open>NaN\<close> (\<open>NaN <= 0\<close> is false, so it returns \<open>NaN\<close> itself), or with a number
  that \<open>Number_dec\<close> does not model.
\<close>

definition computeDurationMin :: "string \<Rightarrow> string \<Rightarrow> int option" where
  "computeDurationMin startTime endTime =
     (let (sh, sm) = first_two_numbers (split_colon startTime);
          (eh, em) = first_two_numbers (split_colon endTime)
      in case (sh, sm, eh, em) of
           (Some sh', Some sm', Some eh', Some em') \<Rightarrow>
             (let startMin = sh' * 60 + sm';
                  endMin = eh' * 60 + em';
                  diff = endMin - startMin
              in Some (if diff \<le> 0 then diff + 24 * 60 else diff))
         | _ \<Rightarrow> None)"

text \<open>
  The \<open>"HH:MM"\<close> format of the schedule fields (what an \<open>input type="time"\<close> yields): two
  digits, a colon, two digits, hour below 24 and minute below 60; and the time of day
  such a string denotes, in minutes since midnight.
\<close>

definition is_HHMM :: "string \<Rightarrow> bool" where
  "is_HHMM s =
     (case s of
        [h1, h2, c, m1, m2] \<Rightarrow>
          is_digit h1 \<and> is_digit h2 \<and> c = CHR '':'' \<and> is_digit m1 \<and> is_digit m2 \<and>
          10 * digit_val h1 + digit_val h2 < 24 \<and> 10 * digit_val m1 + digit_val m2 < 60
      | _ \<Rightarrow> False)"

definition minutes_of :: "string \<Rightarrow> int" where
  "minutes_of s =
     (case s of
        [h1, h2, c, m1, m2] \<Rightarrow>
          (10 * digit_val h1 + digit_val h2) * 60 + (10 * digit_val m1 + digit_val m2)
      | _ \<Rightarrow> 0)"

subsection \<open>Persisted records: schedules and the activity log\<close>

datatype ScheduleType = once | daily

record Schedule =
  schedule_id :: string
  startTime :: string
  endTime :: string
  frequency :: int
  mode :: string
  dataMode :: bool
  schedule_type :: ScheduleType
  enabled :: bool

datatype LogLevel = INFO | WARN | ERROR

text \<open>The structured payload of a log entry (\<open>data?: unknown\<close>), as the JSON it is stored as.\<close>

datatype json = JUndefined | JNull | JBool bool | JNum int | JStr string
  | JArr "json list" | JObj "(string \<times> json) list"

record LogEntry =
  timestamp :: int
  level :: LogLevel
  message :: string
  data :: "json option"

text \<open>
  \<open>chrome.storage.local\<close> under the keys \<open>"schedules"\<close> and \<open>"logs"\<close>; a key that was never
  written is \<open>None\<close>, and the getters read it as the empty list (\<open>?? []\<close>).
\<close>

record storage =
  stored_schedules :: "Schedule list option"
  stored_logs :: "LogEntry list option"

definition getSchedules :: "storage \<Rightarrow> Schedule list" where
  "getSchedules st = (case stored_schedules st of None \<Rightarrow> [] | Some xs \<Rightarrow> xs)"

definition saveSchedules :: "Schedule list \<Rightarrow> storage \<Rightarrow> storage" where
  "saveSchedules schedules st = st\<lparr>stored_schedules := Some schedules\<rparr>"

text \<open>\<open>Array.prototype.findIndex\<close>: the index of the first element that satisfies the
  predicate, \<open>-1\<close> when there is none.\<close>

fun findIndex_from :: "('a \<Rightarrow> bool) \<Rightarrow> 'a list \<Rightarrow> nat \<Rightarrow> int" where
  "findIndex_from P [] i = -1"
| "findIndex_from P (x # xs) i = (if P x then int i else findIndex_from P xs (Suc i))"

definition findIndex :: "('a \<Rightarrow> bool) \<Rightarrow> 'a list \<Rightarrow> int" where
  "findIndex P xs = findIndex_from P xs 0"

definition upsertSchedule :: "Schedule \<Rightarrow> storage \<Rightarrow> storage" where
  "upsertSchedule schedule st =
     (let schedules = getSchedules st;
          idx = findIndex (\<lambda>s. schedule_id s = schedule_id schedule) schedules
      in if idx \<ge> 0
         then saveSchedules (schedules[nat idx := schedule]) st
         else saveSchedules (schedules @ [schedule]) st)"

definition deleteSchedule :: "string \<Rightarrow> storage \<Rightarrow> storage" where
  "deleteSchedule i st = saveSchedules (filter (\<lambda>s. schedule_id s \<noteq> i) (getSchedules st)) st"

definition MAX_LOGS :: nat where
  "MAX_LOGS = 200"

definition getLogs :: "storage \<Rightarrow> LogEntry list" where
  "getLogs st = (case stored_logs st of None \<Rightarrow> [] | Some xs \<Rightarrow> xs)"

text \<open>
  \<open>addLog\<close>; the first argument is the value \<open>Date.now()\<close> returns in the call.
  \<open>logs.unshift(entry)\<close> puts the entry in front, \<open>logs.length = MAX_LOGS\<close> cuts the
  array to its first \<open>MAX_LOGS\<close> elements. The read and the write are taken as one
  step (no other writer of the log between them).
\<close>

definition addLog :: "int \<Rightarrow> LogLevel \<Rightarrow> string \<Rightarrow> json option \<Rightarrow> storage \<Rightarrow> storage" where
  "addLog now lv msg d st =
     (let entry = \<lparr>timestamp = now, level = lv, message = msg, data = d\<rparr>;
          logs = entry # getLogs st;
          logs' = (if length logs > MAX_LOGS then take MAX_LOGS logs else logs)
      in st\<lparr>stored_logs := Some logs'\<rparr>)"

definition clearLogs :: "storage \<Rightarrow> storage" where
  "clearLogs st = st\<lparr>stored_logs := Some []\<rparr>"

text \<open>A sequence of \<open>addLog\<close> calls, each with its clock value and arguments, oldest call first.\<close>

type_synonym log_call = "int \<times> LogLevel \<times> string \<times> json option"

definition entry_of :: "log_call \<Rightarrow> LogEntry" where
  "entry_of c = (case c of (now, lv, msg, d) \<Rightarrow>
     \<lparr>timestamp = now, level = lv, message = msg, data = d\<rparr>)"

definition addLog_call :: "storage \<Rightarrow> log_call \<Rightarrow> storage" where
  "addLog_call st c = (case c of (now, lv, msg, d) \<Rightarrow> addLog now lv msg d st)"

definition addLogs :: "log_call list \<Rightarrow> storage \<Rightarrow> storage" where
  "addLogs calls st = foldl addLog_call st calls"

subsection \<open>\<open>buildFilename\<close>\<close>

text \<open>\<open>String(n)\<close> for an integer (below the magnitude where JavaScript turns to exponent
  notation) and \<open>padStart\<close>.\<close>

definition digit_char :: "nat \<Rightarrow> char" where
  "digit_char n = ''0123456789'' ! n"

fun string_of_nat :: "nat \<Rightarrow> string" where
  "string_of_nat n =
     (if n < 10 then [digit_char n] else string_of_nat (n div 10) @ [digit_char (n mod 10)])"

declare string_of_nat.simps [simp del]

definition String_int :: "int \<Rightarrow> string" where
  "String_int i = (if i < 0 then CHR ''-'' # string_of_nat (nat (- i)) else string_of_nat (nat i))"

definition padStart :: "nat \<Rightarrow> char \<Rightarrow> string \<Rightarrow> string" where
  "padStart len c s = replicate (len - length s) c @ s"

text \<open>\<open>s.indexOf(pat)\<close>: the position of the first occurrence, \<open>None\<close> for \<open>-1\<close>.\<close>

fun indexOf :: "string \<Rightarrow> string \<Rightarrow> nat option" where
  "indexOf pat [] = (if pat = [] then Some 0 else None)"
| "indexOf pat (c # cs) =
     (if prefix pat (c # cs) then Some 0 else map_option Suc (indexOf pat cs))"

text \<open>
  The replacement text of \<open>String.prototype.replace\<close> with a string pattern
  (ECMAScript \<open>GetSubstitution\<close> without captures): \<open>$$\<close> is a dollar sign, \<open>$&\<close> the
  matched text, \<open>$`\<close> the text before the match, \<open>$'\<close> the text after it; every
  other character, and a dollar sign before anything else, stands for itself.
\<close>

fun getSubstitution :: "string \<Rightarrow> string \<Rightarrow> string \<Rightarrow> string \<Rightarrow> string" where
  "getSubstitution matched pre post [] = []"
| "getSubstitution matched pre post [c] = [c]"
| "getSubstitution matched pre post (c # d # r) =
     (if c = CHR ''$'' \<and> d = CHR ''$'' then CHR ''$'' # getSubstitution matched pre post r
      else if c = CHR ''$'' \<and> d = CHR ''&'' then matched @ getSubstitution matched pre post r
      else if c = CHR ''$'' \<and> d = CHR 0x60 then pre @ getSubstitution matched pre post r
      else if c = CHR ''$'' \<and> d = CHR 0x27 then post @ getSubstitution matched pre post r
      else c # getSubstitution matched pre post (d # r))"

text \<open>\<open>s.replace(pat, rep)\<close> with a string pattern: only the first occurrence is replaced.\<close>

definition js_replace :: "string \<Rightarrow> string \<Rightarrow> string \<Rightarrow> string" where
  "js_replace pat rep s =
     (case indexOf pat s of
        None \<Rightarrow> s
      | Some i \<Rightarrow>
          take i s @ getSubstitution pat (take i s) (drop (i + length pat) s) rep
            @ drop (i + length pat) s)"

text \<open>A \<open>Date\<close>, read through its local-time getters (\<open>getMonth\<close> counts from 0).\<close>

record Date =
  getFullYear :: int
  getMonth :: int
  getDate :: int
  getHours :: int
  getMinutes :: int
  getSeconds :: int

definition pad :: "int \<Rightarrow> string" where
  "pad n = padStart 2 (CHR ''0'') (String_int n)"

text \<open>\<open>buildFilename(template, freq, mode, now?)\<close>; \<open>clock\<close> is what \<open>new Date()\<close> gives when
  \<open>now\<close> is left out.\<close>

definition buildFilename :: "string \<Rightarrow> int \<Rightarrow> string \<Rightarrow> Date option \<Rightarrow> Date \<Rightarrow> string" where
  "buildFilename template freq md now clock =
     (let d = (case now of Some n \<Rightarrow> n | None \<Rightarrow> clock);
          date = String_int (getFullYear d) @ pad (getMonth d + 1) @ pad (getDate d);
          time = pad (getHours d) @ pad (getMinutes d) @ pad (getSeconds d)
      in js_replace ''{mode}'' md
           (js_replace ''{freq}'' (String_int freq)
             (js_replace ''{time}'' time
               (js_replace ''{date}'' date template))))"

definition placeholders :: "string list" where
  "placeholders = [''{date}'', ''{time}'', ''{freq}'', ''{mode}'']"

text \<open>The shape the four placeholders share: six characters, an opening brace first and
  no other opening brace.\<close>

definition token :: "string \<Rightarrow> bool" where
  "token p = (length p = 6 \<and> hd p = CHR ''{'' \<and> CHR ''{'' \<notin> set (tl p))"

text \<open>The two strings \<open>date\<close> and \<open>time\<close> that \<open>buildFilename\<close> computes from the \<open>Date\<close>.\<close>

definition date_string :: "Date \<Rightarrow> string" where
  "date_string d = String_int (getFullYear d) @ pad (getMonth d + 1) @ pad (getDate d)"

definition time_string :: "Date \<Rightarrow> string" where
  "time_string d = pad (getHours d) @ pad (getMinutes d) @ pad (getSeconds d)"

text \<open>
  What "replacing only the first occurrence of each placeholder" says, as one pass over
  the template from left to right. \<open>vals\<close> gives the text for every placeholder that has
  not occurred yet. Where a placeholder stands, its first occurrence is replaced by its
  text and the placeholder is taken out of \<open>vals\<close>; an occurrence of a placeholder that
  is no longer in \<open>vals\<close> is copied as it is, like every other character.
\<close>

function replace_first_each :: "(string \<rightharpoonup> string) \<Rightarrow> string \<Rightarrow> string" where
  "replace_first_each vals [] = []"
| "replace_first_each vals (c # cs) =
     (case find (\<lambda>p. prefix p (c # cs)) placeholders of
        None \<Rightarrow> c # replace_first_each vals cs
      | Some p \<Rightarrow>
          (case vals p of
             Some v \<Rightarrow> v @ replace_first_each (vals(p := None)) (drop (length p - 1) cs)
           | None \<Rightarrow> p @ replace_first_each vals (drop (length p - 1) cs)))"
  by pat_completeness auto
termination
  by (relation "measure (\<lambda>(vals, s). length s)") auto

text \<open>
  The text that the last \<open>replace\<close> of \<open>buildFilename\<close> puts in for \<open>{mode}\<close>, given the
  string \<open>s\<close> it works on: the mode string, in which \<open>replace\<close> reads a dollar sign as the
  start of a substitution pattern.
\<close>

definition mode_text :: "string \<Rightarrow> string \<Rightarrow> string" where
  "mode_text md s =
     (case indexOf ''{mode}'' s of
        None \<Rightarrow> md
      | Some i \<Rightarrow> getSubstitution ''{mode}'' (take i s) (drop (i + length ''{mode}'') s) md)"

text \<open>A text of digits and minus signs, not empty: what \<open>String(n)\<close> and \<open>pad(n)\<close> give.\<close>

definition plain :: "string \<Rightarrow> bool" where
  "plain v = (v \<noteq> [] \<and> list_all (\<lambda>c. is_digit c \<or> c = CHR ''-'') v)"

subsection \<open>Example values\<close>

text \<open>Concrete inputs, used where a statement is evaluated at an instance.\<close>

definition example_schedule :: "string \<Rightarrow> int \<Rightarrow> Schedule" where
  "example_schedule i f =
     \<lparr>schedule_id = i, startTime = ''23:30'', endTime = ''00:15'', frequency = f,
      mode = ''FM'', dataMode = False, schedule_type = daily, enabled = True\<rparr>"

definition example_date :: Date where
  "example_date =
     \<lparr>getFullYear = 2026, getMonth = 1, getDate = 21,
      getHours = 7, getMinutes = 0, getSeconds = 0\<rparr>"

section \<open>The Command Channel: \<open>WsClient\<close>\<close>

text \<open>
  A \<open>WebSocket\<close> object as the client sees it: its \<open>readyState\<close>, whether each of its four
  event handlers is set (the client sets them to its own closures, \<open>disconnect\<close> sets
  them to \<open>null\<close>), the \<open>close(code, reason)\<close> calls made on it and the payloads handed
  to \<open>send\<close>. A payload is kept as the JSON value that \<open>JSON.stringify\<close> serialises.
\<close>

datatype ReadyState = CONNECTING | OPEN | CLOSING | CLOSED

record WebSocket =
  readyState :: ReadyState
  onopen :: bool
  onclose :: bool
  onerror :: bool
  onmessage :: bool
  closeCalls :: "(int \<times> string) list"
  sent :: "json list"

text \<open>
  \<open>socket.send(data)\<close> as the WebSocket API defines it: it throws while the socket is
  still connecting, queues the data on an open socket and drops it on a closing or closed
  one. \<open>socket.close(code, reason)\<close> on an open or connecting socket starts the closing
  handshake.
\<close>

definition socket_send :: "json \<Rightarrow> WebSocket \<Rightarrow> string + WebSocket" where
  "socket_send payload s =
     (case readyState s of
        CONNECTING \<Rightarrow> Inl ''InvalidStateError''
      | OPEN \<Rightarrow> Inr (s\<lparr>sent := sent s @ [payload]\<rparr>)
      | _ \<Rightarrow> Inr s)"

definition socket_close :: "int \<Rightarrow> string \<Rightarrow> WebSocket \<Rightarrow> WebSocket" where
  "socket_close code reason s =
     (if readyState s = OPEN \<or> readyState s = CONNECTING
      then s\<lparr>readyState := CLOSING, closeCalls := closeCalls s @ [(code, reason)]\<rparr>
      else s)"

text \<open>
  The listener closure that one \<open>sendCommand\<close> call registers. Closures are compared by
  identity (\<open>indexOf\<close>), so each carries the number of the call that created it, next
  to the variable it captured.
\<close>

record listener =
  call_id :: nat
  expectedType :: string

text \<open>The \<open>setTimeout\<close> timer of a call, while it is armed.\<close>

record timer =
  timer_call :: nat
  timer_expected :: string
  timer_ms :: nat

text \<open>The promise a call returned.\<close>

datatype outcome = Pending | Resolved json | Rejected string

text \<open>The two fields of the class.\<close>

record WsClient =
  ws :: "nat option"
  messageListeners :: "listener list"

text \<open>
  The client together with the objects of the runtime it works on: the sockets, by
  reference (\<open>ws\<close> holds a reference), the armed timers, the promises of the calls made so
  far, and the number the next call gets.
\<close>

record ws_world =
  client :: WsClient
  sockets :: "nat \<Rightarrow> WebSocket"
  timers :: "timer list"
  promises :: "nat \<Rightarrow> outcome"
  next_call :: nat

definition isConnected :: "ws_world \<Rightarrow> bool" where
  "isConnected w =
     (case ws (client w) of
        None \<Rightarrow> False
      | Some a \<Rightarrow> readyState (sockets w a) = OPEN)"

text \<open>\<open>removeMessageListener\<close>: \<open>indexOf\<close> finds the first element that is the closure, \<open>splice\<close>
  takes it out.\<close>

fun remove_listener :: "nat \<Rightarrow> listener list \<Rightarrow> listener list" where
  "remove_listener k [] = []"
| "remove_listener k (l # ls) = (if call_id l = k then ls else l # remove_listener k ls)"

definition removeMessageListener :: "nat \<Rightarrow> ws_world \<Rightarrow> ws_world" where
  "removeMessageListener k w =
     w\<lparr>client := (client w)\<lparr>messageListeners := remove_listener k (messageListeners (client w))\<rparr>\<rparr>"

definition addMessageListener :: "listener \<Rightarrow> ws_world \<Rightarrow> ws_world" where
  "addMessageListener l w =
     w\<lparr>client := (client w)\<lparr>messageListeners := messageListeners (client w) @ [l]\<rparr>\<rparr>"

text \<open>\<open>cleanup\<close> of call \<open>k\<close>: clear its timer if armed, remove its listener.\<close>

definition cleanup :: "nat \<Rightarrow> ws_world \<Rightarrow> ws_world" where
  "cleanup k w = removeMessageListener k (w\<lparr>timers := filter (\<lambda>t. timer_call t \<noteq> k) (timers w)\<rparr>)"

text \<open>\<open>resolve\<close> and \<open>reject\<close>: a promise that is already settled stays as it is.\<close>

definition settle :: "nat \<Rightarrow> outcome \<Rightarrow> ws_world \<Rightarrow> ws_world" where
  "settle k out w =
     (if promises w k = Pending then w\<lparr>promises := (promises w)(k := out)\<rparr> else w)"

text \<open>The value of a property of a parsed message; a repeated key has its last value.\<close>

definition json_get :: "string \<Rightarrow> json \<Rightarrow> json option" where
  "json_get key v = (case v of JObj kvs \<Rightarrow> map_of (rev kvs) key | _ \<Rightarrow> None)"

text \<open>The listener's test \<open>msg && msg.type === expectedType\<close>.\<close>

definition matches :: "json \<Rightarrow> string \<Rightarrow> bool" where
  "matches msg expected = (json_get ''type'' msg = Some (JStr expected))"

definition timeout_message :: "string \<Rightarrow> nat \<Rightarrow> string" where
  "timeout_message expected ms =
     ''Timeout waiting for '' @ [CHR 0x22] @ expected @ [CHR 0x22] @ '' response (''
       @ string_of_nat ms @ ''ms)''"

text \<open>
  \<open>sendCommand(command, expectedType, {timeoutMs})\<close>. The call gets the number
  \<open>next_call w\<close>; its promise is \<open>promises\<close> at that number.
\<close>

definition sendCommand :: "json \<Rightarrow> string \<Rightarrow> nat \<Rightarrow> ws_world \<Rightarrow> ws_world" where
  "sendCommand command expected timeoutMs w =
     (let k = next_call w;
          w0 = w\<lparr>next_call := Suc k, promises := (promises w)(k := Pending)\<rparr>
      in case ws (client w) of
           None \<Rightarrow> settle k (Rejected ''WebSocket is not connected'') w0
         | Some a \<Rightarrow>
             if \<not> isConnected w
             then settle k (Rejected ''WebSocket is not connected'') w0
             else
               let w1 = w0\<lparr>timers := timers w0 @
                          [\<lparr>timer_call = k, timer_expected = expected, timer_ms = timeoutMs\<rparr>]\<rparr>;
                   w2 = addMessageListener \<lparr>call_id = k, expectedType = expected\<rparr> w1
               in case socket_send command (sockets w2 a) of
                    Inr s' \<Rightarrow> w2\<lparr>sockets := (sockets w2)(a := s')\<rparr>
                  | Inl err \<Rightarrow>
                      settle k (Rejected (''Failed to send command: '' @ err)) (cleanup k w2))"

text \<open>The timer of call \<open>k\<close> fires (only an armed timer does): \<open>cleanup\<close>, then \<open>reject\<close>.\<close>

definition on_timeout :: "nat \<Rightarrow> ws_world \<Rightarrow> ws_world" where
  "on_timeout k w =
     (case find (\<lambda>t. timer_call t = k) (timers w) of
        None \<Rightarrow> w
      | Some t \<Rightarrow>
          settle k (Rejected (timeout_message (timer_expected t) (timer_ms t))) (cleanup k w))"

text \<open>A listener is called with a parsed message.\<close>

definition call_listener :: "json \<Rightarrow> ws_world \<Rightarrow> listener \<Rightarrow> ws_world" where
  "call_listener msg w l =
     (if matches msg (expectedType l)
      then settle (call_id l) (Resolved msg) (cleanup (call_id l) w)
      else w)"

text \<open>
  An inbound frame: the text either fails \<open>JSON.parse\<close> or parses to a value. The
  \<open>onmessage\<close> handler that \<open>setupMessageHandler\<close> installs calls every listener of a copy
  of the list, in order; a frame that does not parse is dropped.
\<close>

datatype frame = Unparsable | Parsed json

definition on_message :: "nat \<Rightarrow> frame \<Rightarrow> ws_world \<Rightarrow> ws_world" where
  "on_message a f w =
     (if \<not> onmessage (sockets w a) then w
      else case f of
             Unparsable \<Rightarrow> w
           | Parsed msg \<Rightarrow> foldl (call_listener msg) w (messageListeners (client w)))"

text \<open>The socket closes; the \<open>onclose\<close> handler of \<open>setupMessageHandler\<close> sets \<open>this.ws = null\<close>.\<close>

definition on_close :: "nat \<Rightarrow> ws_world \<Rightarrow> ws_world" where
  "on_close a w =
     (let w' = w\<lparr>sockets := (sockets w)(a := (sockets w a)\<lparr>readyState := CLOSED\<rparr>)\<rparr>
      in if onclose (sockets w a) then w'\<lparr>client := (client w')\<lparr>ws := None\<rparr>\<rparr> else w')"

text \<open>\<open>disconnect()\<close>.\<close>

definition disconnect :: "ws_world \<Rightarrow> ws_world" where
  "disconnect w =
     (let w1 =
        (case ws (client w) of
           Some a \<Rightarrow>
             (let s = (sockets w a)\<lparr>onopen := False, onclose := False,
                                   onerror := False, onmessage := False\<rparr>;
                  s' = (if readyState s = OPEN \<or> readyState s = CONNECTING
                        then socket_close 1000 ''Client disconnect'' s else s)
              in w\<lparr>sockets := (sockets w)(a := s'), client := (client w)\<lparr>ws := None\<rparr>\<rparr>)
         | None \<Rightarrow> w)
      in w1\<lparr>client := (client w1)\<lparr>messageListeners := []\<rparr>\<rparr>)"

text \<open>
  What can happen while a call is pending: a frame arrives on a socket, or the timer of a
  call fires.
\<close>

datatype ws_event = Message nat frame | TimerFired nat

fun ws_step :: "ws_world \<Rightarrow> ws_event \<Rightarrow> ws_world" where
  "ws_step w (Message a f) = on_message a f w"
| "ws_step w (TimerFired k) = on_timeout k w"

definition run_events :: "ws_event list \<Rightarrow> ws_world \<Rightarrow> ws_world" where
  "run_events es w = foldl ws_step w es"

text \<open>An event that leaves a call expecting \<open>expected\<close> with number \<open>k\<close> pending: a frame
  that does not carry the expected type tag, or the timer of another call.\<close>

fun quiet_for :: "string \<Rightarrow> nat \<Rightarrow> ws_event \<Rightarrow> bool" where
  "quiet_for expected k (Message a Unparsable) = True"
| "quiet_for expected k (Message a (Parsed msg)) = (\<not> matches msg expected)"
| "quiet_for expected k (TimerFired j) = (j \<noteq> k)"

text \<open>Call numbers are handed out once: every listener and timer belongs to an earlier call.\<close>

definition wf_world :: "ws_world \<Rightarrow> bool" where
  "wf_world w =
     (list_all (\<lambda>l. call_id l < next_call w) (messageListeners (client w)) \<and>
      list_all (\<lambda>t. timer_call t < next_call w) (timers w))"

definition example_socket :: WebSocket where
  "example_socket =
     \<lparr>readyState = OPEN, onopen = True, onclose = True, onerror = True, onmessage = True,
      closeCalls = [], sent = []\<rparr>"

definition example_world :: ws_world where
  "example_world =
     \<lparr>client = \<lparr>ws = Some 0, messageListeners = []\<rparr>,
      sockets = (\<lambda>_. example_socket),
      timers = [],
      promises = (\<lambda>_. Pending),
      next_call = 0\<rparr>"

text \<open>Call \<open>k\<close> is waiting: its promise is pending, and its listener and its timer are
  registered, once each. And: nothing of call \<open>k\<close> is registered any more.\<close>

definition pending_call :: "nat \<Rightarrow> string \<Rightarrow> nat \<Rightarrow> ws_world \<Rightarrow> bool" where
  "pending_call k e ms w =
     (promises w k = Pending \<and>
      filter (\<lambda>l. call_id l = k) (messageListeners (client w))
        = [\<lparr>call_id = k, expectedType = e\<rparr>] \<and>
      filter (\<lambda>t. timer_call t = k) (timers w)
        = [\<lparr>timer_call = k, timer_expected = e, timer_ms = ms\<rparr>])"

definition released :: "nat \<Rightarrow> ws_world \<Rightarrow> bool" where
  "released k w =
     (k \<notin> call_id ` set (messageListeners (client w)) \<and> k \<notin> timer_call ` set (timers w))"

section \<open>The recording engine: the background service worker\<close>

text \<open>
  The module-level variables of the service worker are the fields of \<open>engine\<close>. Every
  call the worker makes on the outside world (the activity log, the Command Channel, the
  offscreen document that captures audio, alarms, timers, downloads) is recorded, in
  order, in \<open>effects\<close>; what such a call returns or throws is an input of the handler, in
  an environment record. Each handler is taken as one step that runs to its end; the one
  place where the worker waits on purpose, the two seconds after a stop signal, is a
  place where messages of the offscreen document are handled in between. \<open>addLog\<close> and
  \<open>closeOffscreen\<close> are taken not to throw (the latter catches its own errors).
\<close>

datatype RecordingState =
  idle | connecting | setting_freq | setting_mode | recording | saving | error

fun state_name :: "RecordingState \<Rightarrow> string" where
  "state_name idle = ''idle''"
| "state_name connecting = ''connecting''"
| "state_name setting_freq = ''setting_freq''"
| "state_name setting_mode = ''setting_mode''"
| "state_name recording = ''recording''"
| "state_name saving = ''saving''"
| "state_name error = ''error''"

record Settings =
  wsHost :: string
  wsPort :: int
  wsPath :: string
  rigPort :: int
  deviceId :: string
  deviceLabel :: string
  filenameTemplate :: string

record RecordingParams =
  p_frequency :: int
  p_mode :: string
  p_dataMode :: bool
  durationMin :: int

datatype effect =
    AddLog LogLevel string "json option"
  | WsConnect string
  | WsSendCommand json string
  | WsDisconnect
  | EnsureOffscreen
  | SendToOffscreen json
  | CloseOffscreen
  | AlarmCreate string rat
  | AlarmClear string
  | SetInterval
  | ClearInterval
  | Delay nat
  | Download "string option" string

record engine =
  currentState :: RecordingState
  currentFreq :: "int option"
  currentMode :: "string option"
  recordingElapsed :: "int option"
  recordingTotal :: "int option"
  errorMessage :: "string option"
  progressInterval :: "int option"
  effects :: "effect list"

text \<open>\<open>progressInterval\<close> holds, while an interval timer is set, the \<open>recordStart\<close> its
  callback captured.\<close>

definition initial_engine :: engine where
  "initial_engine =
     \<lparr>currentState = idle, currentFreq = None, currentMode = None,
      recordingElapsed = None, recordingTotal = None, errorMessage = None,
      progressInterval = None, effects = []\<rparr>"

definition STOP_ALARM :: string where
  "STOP_ALARM = ''ham-stop-recording''"

definition emit :: "effect \<Rightarrow> engine \<Rightarrow> engine" where
  "emit e s = s\<lparr>effects := effects s @ [e]\<rparr>"

text \<open>The effects a handler added to those of the state it started from.\<close>

definition new_effects :: "engine \<Rightarrow> engine \<Rightarrow> effect list" where
  "new_effects s s' = drop (length (effects s)) (effects s')"

definition setState :: "RecordingState \<Rightarrow> string option \<Rightarrow> engine \<Rightarrow> engine" where
  "setState st err s =
     (let s' = s\<lparr>currentState := st, errorMessage := err\<rparr>
      in if st = idle then s'\<lparr>recordingElapsed := None, recordingTotal := None\<rparr> else s')"

definition resetState :: "engine \<Rightarrow> engine" where
  "resetState s = (if currentState s = error then setState idle None s else s)"

definition clearProgressInterval :: "engine \<Rightarrow> engine" where
  "clearProgressInterval s =
     (case progressInterval s of
        Some _ \<Rightarrow> (emit ClearInterval s)\<lparr>progressInterval := None\<rparr>
      | None \<Rightarrow> s)"

definition buildWsUrl :: "Settings \<Rightarrow> string" where
  "buildWsUrl settings =
     (let path = (if prefix ''/'' (wsPath settings) then wsPath settings
                  else ''/'' @ wsPath settings)
      in ''ws://'' @ wsHost settings @ '':'' @ String_int (wsPort settings) @ path)"

definition String_bool :: "bool \<Rightarrow> string" where
  "String_bool b = (if b then ''true'' else ''false'')"

text \<open>\<open>sendToOffscreen(message)\<close> sends the fields of the message and \<open>target: "offscreen"\<close>.\<close>

definition sendToOffscreen :: "(string \<times> json) list \<Rightarrow> engine \<Rightarrow> engine" where
  "sendToOffscreen kvs s =
     emit (SendToOffscreen (JObj (kvs @ [(''target'', JStr ''offscreen'')]))) s"

subsection \<open>\<open>executeRecordingFlow\<close>\<close>

text \<open>
  How a \<open>sendCommand\<close> call of the flow ends: the promise resolves with a response
  (its \<open>success\<close> and optional \<open>error\<close> fields), or it is rejected (no connection, a
  failed send, the timeout) with an error message.
\<close>

datatype command_result = Responds bool "string option" | Fails string

text \<open>What the outside world answers to the calls of one run of the flow.\<close>

record flow_env =
  getSettings_result :: "string + Settings"
  connect_error :: "string option"
  setFreq_result :: command_result
  setMode_result :: command_result
  ensureOffscreen_error :: "string option"
  startRecording_error :: "string option"
  alarmCreate_error :: "string option"
  date_now :: int

text \<open>
  The body of one of the two \<open>try\<close> blocks around \<open>sendCommand\<close>: the message the \<open>catch\<close>
  block gets, if any. A response with \<open>success\<close> false throws
  \<open>new Error(result.error ?? fallback)\<close>.
\<close>

definition command_failure :: "string \<Rightarrow> command_result \<Rightarrow> string option" where
  "command_failure fallback r =
     (case r of
        Fails msg \<Rightarrow> Some msg
      | Responds success err \<Rightarrow>
          if \<not> success then Some (case err of Some e \<Rightarrow> e | None \<Rightarrow> fallback) else None)"

text \<open>Step 4: start recording via the offscreen document.\<close>

definition flow_record :: "flow_env \<Rightarrow> RecordingParams \<Rightarrow> Settings \<Rightarrow> engine \<Rightarrow> engine" where
  "flow_record env params settings s0 =
     (let s1 = setState recording None s0;
          durationMs = durationMin params * 60 * 1000;
          s2 = s1\<lparr>recordingTotal := Some (durationMin params * 60), recordingElapsed := Some 0\<rparr>;
          failed = (\<lambda>msg s.
            emit CloseOffscreen
              (setState error (Some (''Recording start failed: '' @ msg))
                (emit (AddLog ERROR (''Recording start failed: '' @ msg) None) s)));
          s3 = emit EnsureOffscreen s2
      in case ensureOffscreen_error env of
           Some msg \<Rightarrow> failed msg s3
         | None \<Rightarrow>
             if deviceId settings = []
             then failed ''No audio device selected. Please configure in Options.'' s3
             else
               let s4 = sendToOffscreen
                          [(''action'', JStr ''startRecording''),
                           (''deviceId'', JStr (deviceId settings)),
                           (''durationMs'', JNum durationMs),
                           (''mimeType'', JStr ''audio/webm;codecs=opus'')] s3
               in case startRecording_error env of
                    Some msg \<Rightarrow> failed msg s4
                  | None \<Rightarrow>
                      let s5 = emit (AddLog INFO
                                 (''Recording started: '' @ String_int (durationMin params) @ '' min'')
                                 (Some (JObj [(''deviceId'', JStr (deviceId settings))]))) s4;
                          stopDelayMin = max (of_int (durationMin params) + 1 / 10) (1 :: rat);
                          s6 = emit (AlarmCreate STOP_ALARM stopDelayMin) s5
                      in case alarmCreate_error env of
                           Some msg \<Rightarrow> failed msg s6
                         | None \<Rightarrow> (emit SetInterval s6)\<lparr>progressInterval := Some (date_now env)\<rparr>)"

text \<open>Step 3: set the mode, then disconnect.\<close>

definition flow_setMode :: "flow_env \<Rightarrow> RecordingParams \<Rightarrow> Settings \<Rightarrow> engine \<Rightarrow> engine" where
  "flow_setMode env params settings s0 =
     (let s1 = setState setting_mode None s0;
          modeCmd = JObj [(''type'', JStr ''setMode''), (''port'', JNum (rigPort settings)),
                          (''mode'', JStr (p_mode params)), (''data'', JBool (p_dataMode params))];
          s2 = emit (WsSendCommand modeCmd ''setModeResult'') s1
      in case command_failure ''setMode returned success=false'' (setMode_result env) of
           Some msg \<Rightarrow>
             emit WsDisconnect
               (setState error (Some (''setMode failed: '' @ msg))
                 (emit (AddLog ERROR (''setMode failed: '' @ msg) None) s2))
         | None \<Rightarrow>
             let s3 = s2\<lparr>currentMode := Some (p_mode params)\<rparr>;
                 s4 = emit (AddLog INFO
                        (''Mode set: '' @ p_mode params @ '' (data=''
                           @ String_bool (p_dataMode params) @ '')'') None) s3;
                 s5 = emit WsDisconnect s4
             in flow_record env params settings s5)"

text \<open>Step 2: set the frequency, then wait 200 ms.\<close>

definition flow_setFreq :: "flow_env \<Rightarrow> RecordingParams \<Rightarrow> Settings \<Rightarrow> engine \<Rightarrow> engine" where
  "flow_setFreq env params settings s0 =
     (let s1 = setState setting_freq None s0;
          freqCmd = JObj [(''type'', JStr ''setFreq''), (''port'', JNum (rigPort settings)),
                          (''freq'', JNum (p_frequency params))];
          s2 = emit (WsSendCommand freqCmd ''setFreqResult'') s1
      in case command_failure ''setFreq returned success=false'' (setFreq_result env) of
           Some msg \<Rightarrow>
             emit WsDisconnect
               (setState error (Some (''setFreq failed: '' @ msg))
                 (emit (AddLog ERROR (''setFreq failed: '' @ msg) None) s2))
         | None \<Rightarrow>
             let s3 = s2\<lparr>currentFreq := Some (p_frequency params)\<rparr>;
                 s4 = emit (AddLog INFO
                        (''Frequency set: '' @ String_int (p_frequency params) @ '' Hz'') None) s3;
                 s5 = emit (Delay 200) s4
             in flow_setMode env params settings s5)"

text \<open>Step 1: connect (5 s per attempt, 3 attempts, 1 s between them).\<close>

definition flow_connect :: "flow_env \<Rightarrow> RecordingParams \<Rightarrow> Settings \<Rightarrow> engine \<Rightarrow> engine" where
  "flow_connect env params settings s0 =
     (let wsUrl = buildWsUrl settings;
          s1 = emit (AddLog INFO (''Starting recording flow: '' @ wsUrl)
                 (Some (JObj [(''freq'', JNum (p_frequency params)),
                              (''mode'', JStr (p_mode params))]))) s0;
          s2 = setState connecting None s1;
          s3 = emit (WsConnect wsUrl) s2
      in case connect_error env of
           Some msg \<Rightarrow>
             setState error (Some (''WS connection failed: '' @ msg))
               (emit (AddLog ERROR (''WebSocket connection failed: '' @ msg) None) s3)
         | None \<Rightarrow>
             flow_setFreq env params settings (emit (AddLog INFO ''WebSocket connected'' None) s3))"

definition executeRecordingFlow :: "flow_env \<Rightarrow> RecordingParams \<Rightarrow> engine \<Rightarrow> engine" where
  "executeRecordingFlow env params s =
     (let s0 = (if currentState s = error then resetState s else s)
      in if currentState s0 \<noteq> idle
         then emit (AddLog WARN ''Recording flow skipped: already busy''
                (Some (JObj [(''currentState'', JStr (state_name (currentState s0)))]))) s0
         else case getSettings_result env of
                Inl err \<Rightarrow>
                  setState error (Some ''Failed to load settings'')
                    (emit (AddLog ERROR ''Failed to load settings''
                       (Some (JObj [(''error'', JStr err)]))) s0)
              | Inr settings \<Rightarrow> flow_connect env params settings s0)"

subsection \<open>Messages of the offscreen document\<close>

datatype OffscreenResponse =
    EnumerateDevicesResult "(string \<times> string) list"
  | RecordingResult bool "string option" "int option" "string option"
  | RecordingProgress int int
  | RecordingStatusResult bool int


text \<open>What the outside world answers while a recording result is handled.\<close>

record result_env =
  settings_result :: "string + Settings"
  download_error :: "string option"
  new_Date :: Date

text \<open>A value in a template literal: \<open>undefined\<close> prints as the word.\<close>

definition template_string :: "string option \<Rightarrow> string" where
  "template_string v = (case v of Some x \<Rightarrow> x | None \<Rightarrow> ''undefined'')"

definition template_int :: "int option \<Rightarrow> json" where
  "template_int v = (case v of Some x \<Rightarrow> JNum x | None \<Rightarrow> JUndefined)"

definition handleRecordingResult ::
  "result_env \<Rightarrow> bool \<Rightarrow> string option \<Rightarrow> int option \<Rightarrow> string option \<Rightarrow> engine \<Rightarrow> engine" where
  "handleRecordingResult env success blobUrl durationMs err s =
     (let s1 = clearProgressInterval (emit (AlarmClear STOP_ALARM) s)
      in if \<not> success
         then emit CloseOffscreen
                (setState error (Some (''Recording failed: '' @ template_string err))
                  (emit (AddLog ERROR (''Recording failed: '' @ template_string err) None) s1))
         else
           let s2 = setState saving None s1;
               failed = (\<lambda>errMsg s.
                 emit CloseOffscreen
                   (setState error (Some (''Download failed: '' @ errMsg))
                     (emit (AddLog ERROR (''Download failed: '' @ errMsg) None) s)))
           in case settings_result env of
                Inl errMsg \<Rightarrow> failed errMsg s2
              | Inr settings \<Rightarrow>
                  let filename = buildFilename (filenameTemplate settings)
                        (case currentFreq s2 of Some f \<Rightarrow> f | None \<Rightarrow> 0)
                        (case currentMode s2 of Some m \<Rightarrow> m | None \<Rightarrow> ''UNKNOWN'')
                        None (new_Date env);
                      s3 = emit (Download blobUrl (filename @ ''.webm'')) s2
                  in case download_error env of
                       Some errMsg \<Rightarrow> failed errMsg s3
                     | None \<Rightarrow>
                         let s4 = emit (AddLog INFO (''Recording saved: '' @ filename @ ''.webm'')
                                    (Some (JObj [(''durationMs'', template_int durationMs)]))) s3;
                             s5 = emit CloseOffscreen s4;
                             s6 = setState idle None s5
                         in emit (AddLog INFO ''Recording flow complete'' None) s6)"

definition handleOffscreenMessage :: "result_env \<Rightarrow> OffscreenResponse \<Rightarrow> engine \<Rightarrow> engine" where
  "handleOffscreenMessage env msg s =
     (case msg of
        RecordingResult success blobUrl durationMs err \<Rightarrow>
          handleRecordingResult env success blobUrl durationMs err s
      | RecordingProgress el tot \<Rightarrow>
          s\<lparr>recordingElapsed := Some el, recordingTotal := Some tot\<rparr>
      | EnumerateDevicesResult _ \<Rightarrow> s
      | RecordingStatusResult _ _ \<Rightarrow> s)"

subsection \<open>Stopping: the manual stop and the backup alarm\<close>

text \<open>
  What happens around a stop signal: whether sending it throws (with \<open>String(err)\<close>), and
  the messages of the offscreen document that are handled during the two seconds the
  worker waits, each with the answers its handling gets.
\<close>

record stop_env =
  stop_signal_error :: "string option"
  during_wait :: "(result_env \<times> OffscreenResponse) list"

definition handle_during_wait :: "(result_env \<times> OffscreenResponse) list \<Rightarrow> engine \<Rightarrow> engine" where
  "handle_during_wait ms s = foldl (\<lambda>s (env, msg). handleOffscreenMessage env msg s) s ms"

definition stopRecording :: "stop_env \<Rightarrow> engine \<Rightarrow> engine" where
  "stopRecording env s =
     (let s1 = clearProgressInterval (emit (AlarmClear STOP_ALARM) s)
      in if currentState s1 = error
         then setState idle None
                (emit CloseOffscreen
                  (emit WsDisconnect
                    (emit (AddLog INFO ''Force reset from error state'' None) s1)))
         else if currentState s1 \<noteq> recording
         then emit (AddLog WARN ''stopRecording called but not recording'' None) s1
         else
           let s2 = sendToOffscreen [(''action'', JStr ''stopRecording'')] s1;
               s3 = (case stop_signal_error env of
                       Some err \<Rightarrow>
                         emit (AddLog WARN (''Offscreen unreachable, force-closing: '' @ err) None) s2
                     | None \<Rightarrow>
                         handle_during_wait (during_wait env)
                           (emit (Delay 2000)
                             (emit (AddLog INFO ''Stop signal sent to offscreen'' None) s2)))
           in if currentState s3 = recording
              then setState idle None
                     (emit CloseOffscreen
                       (emit (AddLog INFO ''Force-closing offscreen and resetting state'' None) s3))
              else s3)"


section \<open>The service worker between two awaits\<close>

text \<open>
  The handlers of the worker are async functions on the same module variables. A call
  runs until its first \<open>await\<close> and is suspended there; when the awaited promise settles
  it runs on until its next \<open>await\<close>, or to its end. Between two such pieces of one call,
  other handlers are called, other calls are resumed and the interval timer fires. This
  section models the worker piece by piece: the state is the module variables (with the
  trace of effects), the interval timers that are set, and the suspended calls.

  As in the section before, an \<open>addLog\<close>, \<open>connect\<close>, \<open>sendCommand\<close>, \<open>ensureOffscreen\<close> or
  \<open>closeOffscreen\<close> call is one effect, written to the trace when the call is made.
\<close>

subsection \<open>Settled promises and suspended calls\<close>

text \<open>
  How an awaited promise settles: fulfilled without a value that is used, rejected,
  fulfilled with the settings (\<open>getSettings\<close>), or fulfilled with a response
  (\<open>sendCommand\<close>: its \<open>success\<close> and \<open>error\<close> fields). The two strings of a rejection are
  what \<open>err instanceof Error ? err.message : String(err)\<close> and what \<open>String(err)\<close> give for
  the value thrown.
\<close>

datatype response =
    Fulfilled
  | Threw string string
  | Loaded Settings
  | Answered bool "string option"

text \<open>
  A suspended call: the \<open>await\<close> it waits at, with the local variables it still needs.
  \<open>Flow_\<close> is \<open>executeRecordingFlow\<close>, \<open>Stop_\<close> is \<open>stopRecording\<close>, \<open>Result_\<close> is
  \<open>handleRecordingResult\<close> and \<open>Alarm_\<close> is the alarm listener for \<open>STOP_ALARM\<close>; a name
  ending in \<open>_log\<close> waits for an \<open>addLog\<close>, one ending in \<open>_close\<close> for a \<open>closeOffscreen\<close>.
\<close>

datatype (plugins only: code size) task =
    Flow_busy_log
  | Flow_getSettings RecordingParams
  | Flow_settings_failed_log
  | Flow_start_log RecordingParams Settings
  | Flow_connect RecordingParams Settings
  | Flow_connected_log RecordingParams Settings
  | Flow_connect_failed_log string
  | Flow_setFreq RecordingParams Settings
  | Flow_freq_log RecordingParams Settings
  | Flow_setFreq_failed_log string
  | Flow_delay RecordingParams Settings
  | Flow_setMode RecordingParams Settings
  | Flow_mode_log RecordingParams Settings
  | Flow_setMode_failed_log string
  | Flow_ensureOffscreen RecordingParams Settings
  | Flow_startRecording RecordingParams Settings
  | Flow_started_log RecordingParams
  | Flow_alarm
  | Flow_start_failed_log string
  | Flow_failed_close
  | Stop_alarmClear
  | Stop_reset_log
  | Stop_reset_close
  | Stop_not_recording_log
  | Stop_signal
  | Stop_signal_log
  | Stop_wait
  | Stop_unreachable_log
  | Stop_force_log
  | Stop_force_close
  | Result_alarmClear bool "string option" "int option" "string option"
  | Result_failed_log "string option"
  | Result_failed_close
  | Result_getSettings "string option" "int option"
  | Result_download "string option" "int option" string
  | Result_saved_log
  | Result_download_failed_log string
  | Result_returned_close
  | Result_thrown_close
  | Result_close
  | Result_complete_log
  | Alarm_log
  | Alarm_signal
  | Alarm_wait
  | Alarm_close
  | Alarm_stopped_log

text \<open>
  \<open>tickers\<close> are the interval timers that are set, each by the \<open>recordStart\<close> its callback
  captured; \<open>progressInterval\<close> of the module variables is the one the worker can still
  clear. \<open>tasks\<close> are the suspended calls.
\<close>

record worker =
  vars :: engine
  tickers :: "int list"
  tasks :: "task list"

definition initial_worker :: worker where
  "initial_worker = \<lparr>vars = initial_engine, tickers = [], tasks = []\<rparr>"

text \<open>
  What a piece of a call leaves: the worker, and the \<open>await\<close> the call is now suspended
  at, if it has not ended. (\<open>None\<close> for the whole: the promise cannot settle that way.)
\<close>

definition suspend :: "task \<Rightarrow> engine \<Rightarrow> worker \<Rightarrow> (worker \<times> task option) option" where
  "suspend t s w = Some (w\<lparr>vars := s\<rparr>, Some t)"

definition finish :: "engine \<Rightarrow> worker \<Rightarrow> (worker \<times> task option) option" where
  "finish s w = Some (w\<lparr>vars := s\<rparr>, None)"

text \<open>\<open>clearProgressInterval()\<close>, with the timer it clears.\<close>

definition clear_interval :: "worker \<Rightarrow> worker" where
  "clear_interval w =
     w\<lparr>vars := clearProgressInterval (vars w),
       tickers := (case progressInterval (vars w) of
                     Some recordStart \<Rightarrow> remove1 recordStart (tickers w)
                   | None \<Rightarrow> tickers w)\<rparr>"

subsection \<open>\<open>executeRecordingFlow\<close>, piece by piece\<close>

text \<open>The call, up to \<open>await addLog(...)\<close> of the busy branch or \<open>await getSettings()\<close>.\<close>

definition call_executeRecordingFlow ::
  "RecordingParams \<Rightarrow> worker \<Rightarrow> (worker \<times> task option) option" where
  "call_executeRecordingFlow params w =
     (let s0 = (if currentState (vars w) = error then resetState (vars w) else vars w)
      in if currentState s0 \<noteq> idle
         then suspend Flow_busy_log
                (emit (AddLog WARN ''Recording flow skipped: already busy''
                   (Some (JObj [(''currentState'', JStr (state_name (currentState s0)))]))) s0) w
         else suspend (Flow_getSettings params) s0 w)"

text \<open>The four \<open>catch\<close> blocks of the flow, up to their \<open>await addLog(...)\<close>.\<close>

definition flow_connect_catch :: "string \<Rightarrow> worker \<Rightarrow> (worker \<times> task option) option" where
  "flow_connect_catch msg w =
     suspend (Flow_connect_failed_log msg)
       (emit (AddLog ERROR (''WebSocket connection failed: '' @ msg) None) (vars w)) w"

definition flow_setFreq_catch :: "string \<Rightarrow> worker \<Rightarrow> (worker \<times> task option) option" where
  "flow_setFreq_catch msg w =
     suspend (Flow_setFreq_failed_log msg)
       (emit (AddLog ERROR (''setFreq failed: '' @ msg) None) (vars w)) w"

definition flow_setMode_catch :: "string \<Rightarrow> worker \<Rightarrow> (worker \<times> task option) option" where
  "flow_setMode_catch msg w =
     suspend (Flow_setMode_failed_log msg)
       (emit (AddLog ERROR (''setMode failed: '' @ msg) None) (vars w)) w"

definition flow_start_catch :: "string \<Rightarrow> worker \<Rightarrow> (worker \<times> task option) option" where
  "flow_start_catch msg w =
     suspend (Flow_start_failed_log msg)
       (emit (AddLog ERROR (''Recording start failed: '' @ msg) None) (vars w)) w"

text \<open>After \<open>await wsClient.sendCommand(...)\<close> of step 2 and of step 3.\<close>

definition flow_setFreq_settled ::
  "RecordingParams \<Rightarrow> Settings \<Rightarrow> command_result \<Rightarrow> worker
     \<Rightarrow> (worker \<times> task option) option" where
  "flow_setFreq_settled params settings r w =
     (case command_failure ''setFreq returned success=false'' r of
        Some msg \<Rightarrow> flow_setFreq_catch msg w
      | None \<Rightarrow>
          let s3 = (vars w)\<lparr>currentFreq := Some (p_frequency params)\<rparr>;
              s4 = emit (AddLog INFO
                     (''Frequency set: '' @ String_int (p_frequency params) @ '' Hz'') None) s3
          in suspend (Flow_freq_log params settings) s4 w)"

definition flow_setMode_settled ::
  "RecordingParams \<Rightarrow> Settings \<Rightarrow> command_result \<Rightarrow> worker
     \<Rightarrow> (worker \<times> task option) option" where
  "flow_setMode_settled params settings r w =
     (case command_failure ''setMode returned success=false'' r of
        Some msg \<Rightarrow> flow_setMode_catch msg w
      | None \<Rightarrow>
          let s3 = (vars w)\<lparr>currentMode := Some (p_mode params)\<rparr>;
              s4 = emit (AddLog INFO
                     (''Mode set: '' @ p_mode params @ '' (data=''
                        @ String_bool (p_dataMode params) @ '')'') None) s3
          in suspend (Flow_mode_log params settings) s4 w)"

subsection \<open>\<open>stopRecording\<close>, \<open>handleRecordingResult\<close> and the backup alarm, piece by piece\<close>

definition call_stopRecording :: "worker \<Rightarrow> (worker \<times> task option) option" where
  "call_stopRecording w = suspend Stop_alarmClear (emit (AlarmClear STOP_ALARM) (vars w)) w"

text \<open>The \<open>catch\<close> block of \<open>stopRecording\<close>, and what follows its \<open>try\<close> statement.\<close>

definition stop_catch :: "string \<Rightarrow> worker \<Rightarrow> (worker \<times> task option) option" where
  "stop_catch str w =
     suspend Stop_unreachable_log
       (emit (AddLog WARN (''Offscreen unreachable, force-closing: '' @ str) None) (vars w)) w"

definition stop_after_try :: "worker \<Rightarrow> (worker \<times> task option) option" where
  "stop_after_try w =
     (if currentState (vars w) = recording
      then suspend Stop_force_log
             (emit (AddLog INFO ''Force-closing offscreen and resetting state'' None) (vars w)) w
      else finish (vars w) w)"

definition call_handleRecordingResult ::
  "bool \<Rightarrow> string option \<Rightarrow> int option \<Rightarrow> string option \<Rightarrow> worker
     \<Rightarrow> (worker \<times> task option) option" where
  "call_handleRecordingResult success blobUrl durationMs err w =
     suspend (Result_alarmClear success blobUrl durationMs err)
       (emit (AlarmClear STOP_ALARM) (vars w)) w"

text \<open>The \<open>catch\<close> block of \<open>handleRecordingResult\<close>.\<close>

definition result_catch :: "string \<Rightarrow> worker \<Rightarrow> (worker \<times> task option) option" where
  "result_catch errMsg w =
     suspend (Result_download_failed_log errMsg)
       (emit (AddLog ERROR (''Download failed: '' @ errMsg) None) (vars w)) w"

text \<open>\<open>handleOffscreenMessage(msg)\<close>: only a recording result is awaited.\<close>

definition call_handleOffscreenMessage ::
  "OffscreenResponse \<Rightarrow> worker \<Rightarrow> (worker \<times> task option) option" where
  "call_handleOffscreenMessage msg w =
     (case msg of
        RecordingResult success blobUrl durationMs err \<Rightarrow>
          call_handleRecordingResult success blobUrl durationMs err w
      | RecordingProgress el tot \<Rightarrow>
          finish ((vars w)\<lparr>recordingElapsed := Some el, recordingTotal := Some tot\<rparr>) w
      | EnumerateDevicesResult _ \<Rightarrow> finish (vars w) w
      | RecordingStatusResult _ _ \<Rightarrow> finish (vars w) w)"

text \<open>The alarm listener when the alarm is \<open>STOP_ALARM\<close>, and what follows its \<open>try\<close>
  statement.\<close>

definition call_onStopAlarm :: "worker \<Rightarrow> (worker \<times> task option) option" where
  "call_onStopAlarm w =
     suspend Alarm_log
       (emit (AddLog INFO
          (''Backup stop alarm fired '' @ [CHR 0xE2, CHR 0x80, CHR 0x94]
             @ '' force-stopping recording'') None) (vars w)) w"

definition alarm_after_try :: "worker \<Rightarrow> (worker \<times> task option) option" where
  "alarm_after_try w =
     (if currentState (vars w) = recording
      then suspend Alarm_close (emit CloseOffscreen (vars w)) w
      else finish (vars w) w)"

subsection \<open>Resuming a suspended call\<close>

text \<open>
  \<open>resume t r now today w\<close>: the call suspended at \<open>t\<close> runs on after its promise settled
  as \<open>r\<close>, up to its next \<open>await\<close> or its end; \<open>now\<close> is what \<open>Date.now()\<close> and \<open>today\<close> what
  \<open>new Date()\<close> give meanwhile. An exception outside every \<open>try\<close> ends the call. The promise
  of a \<open>setTimeout\<close> and that of \<open>closeOffscreen\<close> (which catches what it throws) are only
  ever fulfilled.
\<close>

primrec resume ::
  "task \<Rightarrow> response \<Rightarrow> int \<Rightarrow> Date \<Rightarrow> worker \<Rightarrow> (worker \<times> task option) option" where
  "resume Flow_busy_log r now today w =
     (case r of
        Fulfilled \<Rightarrow> finish (vars w) w
      | Threw _ _ \<Rightarrow> finish (vars w) w
      | _ \<Rightarrow> None)"
| "resume (Flow_getSettings params) r now today w =
     (case r of
        Loaded settings \<Rightarrow>
          suspend (Flow_start_log params settings)
            (emit (AddLog INFO (''Starting recording flow: '' @ buildWsUrl settings)
               (Some (JObj [(''freq'', JNum (p_frequency params)),
                            (''mode'', JStr (p_mode params))]))) (vars w)) w
      | Threw _ str \<Rightarrow>
          suspend Flow_settings_failed_log
            (emit (AddLog ERROR ''Failed to load settings''
               (Some (JObj [(''error'', JStr str)]))) (vars w)) w
      | _ \<Rightarrow> None)"
| "resume Flow_settings_failed_log r now today w =
     (case r of
        Fulfilled \<Rightarrow> finish (setState error (Some ''Failed to load settings'') (vars w)) w
      | Threw _ _ \<Rightarrow> finish (vars w) w
      | _ \<Rightarrow> None)"
| "resume (Flow_start_log params settings) r now today w =
     (case r of
        Fulfilled \<Rightarrow>
          let s2 = setState connecting None (vars w);
              s3 = emit (WsConnect (buildWsUrl settings)) s2
          in suspend (Flow_connect params settings) s3 w
      | Threw _ _ \<Rightarrow> finish (vars w) w
      | _ \<Rightarrow> None)"
| "resume (Flow_connect params settings) r now today w =
     (case r of
        Fulfilled \<Rightarrow>
          suspend (Flow_connected_log params settings)
            (emit (AddLog INFO ''WebSocket connected'' None) (vars w)) w
      | Threw msg _ \<Rightarrow> flow_connect_catch msg w
      | _ \<Rightarrow> None)"
| "resume (Flow_connected_log params settings) r now today w =
     (case r of
        Fulfilled \<Rightarrow>
          let s1 = setState setting_freq None (vars w);
              freqCmd = JObj [(''type'', JStr ''setFreq''), (''port'', JNum (rigPort settings)),
                              (''freq'', JNum (p_frequency params))];
              s2 = emit (WsSendCommand freqCmd ''setFreqResult'') s1
          in suspend (Flow_setFreq params settings) s2 w
      | Threw msg _ \<Rightarrow> flow_connect_catch msg w
      | _ \<Rightarrow> None)"
| "resume (Flow_connect_failed_log msg) r now today w =
     (case r of
        Fulfilled \<Rightarrow>
          finish (setState error (Some (''WS connection failed: '' @ msg)) (vars w)) w
      | Threw _ _ \<Rightarrow> finish (vars w) w
      | _ \<Rightarrow> None)"
| "resume (Flow_setFreq params settings) r now today w =
     (case r of
        Answered success err \<Rightarrow> flow_setFreq_settled params settings (Responds success err) w
      | Threw msg _ \<Rightarrow> flow_setFreq_settled params settings (Fails msg) w
      | _ \<Rightarrow> None)"
| "resume (Flow_freq_log params settings) r now today w =
     (case r of
        Fulfilled \<Rightarrow> suspend (Flow_delay params settings) (emit (Delay 200) (vars w)) w
      | Threw msg _ \<Rightarrow> flow_setFreq_catch msg w
      | _ \<Rightarrow> None)"
| "resume (Flow_setFreq_failed_log msg) r now today w =
     (case r of
        Fulfilled \<Rightarrow>
          finish (emit WsDisconnect
                    (setState error (Some (''setFreq failed: '' @ msg)) (vars w))) w
      | Threw _ _ \<Rightarrow> finish (vars w) w
      | _ \<Rightarrow> None)"
| "resume (Flow_delay params settings) r now today w =
     (case r of
        Fulfilled \<Rightarrow>
          let s1 = setState setting_mode None (vars w);
              modeCmd = JObj [(''type'', JStr ''setMode''), (''port'', JNum (rigPort settings)),
                              (''mode'', JStr (p_mode params)),
                              (''data'', JBool (p_dataMode params))];
              s2 = emit (WsSendCommand modeCmd ''setModeResult'') s1
          in suspend (Flow_setMode params settings) s2 w
      | _ \<Rightarrow> None)"
| "resume (Flow_setMode params settings) r now today w =
     (case r of
        Answered success err \<Rightarrow> flow_setMode_settled params settings (Responds success err) w
      | Threw msg _ \<Rightarrow> flow_setMode_settled params settings (Fails msg) w
      | _ \<Rightarrow> None)"
| "resume (Flow_mode_log params settings) r now today w =
     (case r of
        Fulfilled \<Rightarrow>
          let s5 = emit WsDisconnect (vars w);
              s1 = setState recording None s5;
              s2 = s1\<lparr>recordingTotal := Some (durationMin params * 60),
                       recordingElapsed := Some 0\<rparr>;
              s3 = emit EnsureOffscreen s2
          in suspend (Flow_ensureOffscreen params settings) s3 w
      | Threw msg _ \<Rightarrow> flow_setMode_catch msg w
      | _ \<Rightarrow> None)"
| "resume (Flow_setMode_failed_log msg) r now today w =
     (case r of
        Fulfilled \<Rightarrow>
          finish (emit WsDisconnect
                    (setState error (Some (''setMode failed: '' @ msg)) (vars w))) w
      | Threw _ _ \<Rightarrow> finish (vars w) w
      | _ \<Rightarrow> None)"
| "resume (Flow_ensureOffscreen params settings) r now today w =
     (case r of
        Fulfilled \<Rightarrow>
          if deviceId settings = []
          then flow_start_catch ''No audio device selected. Please configure in Options.'' w
          else suspend (Flow_startRecording params settings)
                 (sendToOffscreen
                    [(''action'', JStr ''startRecording''),
                     (''deviceId'', JStr (deviceId settings)),
                     (''durationMs'', JNum (durationMin params * 60 * 1000)),
                     (''mimeType'', JStr ''audio/webm;codecs=opus'')] (vars w)) w
      | Threw msg _ \<Rightarrow> flow_start_catch msg w
      | _ \<Rightarrow> None)"
| "resume (Flow_startRecording params settings) r now today w =
     (case r of
        Fulfilled \<Rightarrow>
          suspend (Flow_started_log params)
            (emit (AddLog INFO
               (''Recording started: '' @ String_int (durationMin params) @ '' min'')
               (Some (JObj [(''deviceId'', JStr (deviceId settings))]))) (vars w)) w
      | Threw msg _ \<Rightarrow> flow_start_catch msg w
      | _ \<Rightarrow> None)"
| "resume (Flow_started_log params) r now today w =
     (case r of
        Fulfilled \<Rightarrow>
          let stopDelayMin = max (of_int (durationMin params) + 1 / 10) (1 :: rat)
          in suspend Flow_alarm (emit (AlarmCreate STOP_ALARM stopDelayMin) (vars w)) w
      | Threw msg _ \<Rightarrow> flow_start_catch msg w
      | _ \<Rightarrow> None)"
| "resume Flow_alarm r now today w =
     (case r of
        Fulfilled \<Rightarrow>
          let recordStart = now
          in Some (w\<lparr>vars := (emit SetInterval (vars w))\<lparr>progressInterval := Some recordStart\<rparr>,
                     tickers := tickers w @ [recordStart]\<rparr>, None)
      | Threw msg _ \<Rightarrow> flow_start_catch msg w
      | _ \<Rightarrow> None)"
| "resume (Flow_start_failed_log msg) r now today w =
     (case r of
        Fulfilled \<Rightarrow>
          suspend Flow_failed_close
            (emit CloseOffscreen
               (setState error (Some (''Recording start failed: '' @ msg)) (vars w))) w
      | Threw _ _ \<Rightarrow> finish (vars w) w
      | _ \<Rightarrow> None)"
| "resume Flow_failed_close r now today w =
     (case r of Fulfilled \<Rightarrow> finish (vars w) w | _ \<Rightarrow> None)"
| "resume Stop_alarmClear r now today w =
     (case r of
        Fulfilled \<Rightarrow>
          let w1 = clear_interval w; s1 = vars w1
          in if currentState s1 = error
             then suspend Stop_reset_log
                    (emit (AddLog INFO ''Force reset from error state'' None) s1) w1
             else if currentState s1 \<noteq> recording
             then suspend Stop_not_recording_log
                    (emit (AddLog WARN ''stopRecording called but not recording'' None) s1) w1
             else suspend Stop_signal
                    (sendToOffscreen [(''action'', JStr ''stopRecording'')] s1) w1
      | Threw _ _ \<Rightarrow> finish (vars w) w
      | _ \<Rightarrow> None)"
| "resume Stop_reset_log r now today w =
     (case r of
        Fulfilled \<Rightarrow>
          suspend Stop_reset_close (emit CloseOffscreen (emit WsDisconnect (vars w))) w
      | Threw _ _ \<Rightarrow> finish (vars w) w
      | _ \<Rightarrow> None)"
| "resume Stop_reset_close r now today w =
     (case r of Fulfilled \<Rightarrow> finish (setState idle None (vars w)) w | _ \<Rightarrow> None)"
| "resume Stop_not_recording_log r now today w =
     (case r of
        Fulfilled \<Rightarrow> finish (vars w) w
      | Threw _ _ \<Rightarrow> finish (vars w) w
      | _ \<Rightarrow> None)"
| "resume Stop_signal r now today w =
     (case r of
        Fulfilled \<Rightarrow>
          suspend Stop_signal_log
            (emit (AddLog INFO ''Stop signal sent to offscreen'' None) (vars w)) w
      | Threw _ str \<Rightarrow> stop_catch str w
      | _ \<Rightarrow> None)"
| "resume Stop_signal_log r now today w =
     (case r of
        Fulfilled \<Rightarrow> suspend Stop_wait (emit (Delay 2000) (vars w)) w
      | Threw _ str \<Rightarrow> stop_catch str w
      | _ \<Rightarrow> None)"
| "resume Stop_wait r now today w =
     (case r of Fulfilled \<Rightarrow> stop_after_try w | _ \<Rightarrow> None)"
| "resume Stop_unreachable_log r now today w =
     (case r of
        Fulfilled \<Rightarrow> stop_after_try w
      | Threw _ _ \<Rightarrow> finish (vars w) w
      | _ \<Rightarrow> None)"
| "resume Stop_force_log r now today w =
     (case r of
        Fulfilled \<Rightarrow> suspend Stop_force_close (emit CloseOffscreen (vars w)) w
      | Threw _ _ \<Rightarrow> finish (vars w) w
      | _ \<Rightarrow> None)"
| "resume Stop_force_close r now today w =
     (case r of Fulfilled \<Rightarrow> finish (setState idle None (vars w)) w | _ \<Rightarrow> None)"
| "resume (Result_alarmClear success blobUrl durationMs err) r now today w =
     (case r of
        Fulfilled \<Rightarrow>
          let w1 = clear_interval w; s1 = vars w1
          in if \<not> success
             then suspend (Result_failed_log err)
                    (emit (AddLog ERROR (''Recording failed: '' @ template_string err) None) s1) w1
             else suspend (Result_getSettings blobUrl durationMs) (setState saving None s1) w1
      | Threw _ _ \<Rightarrow> finish (vars w) w
      | _ \<Rightarrow> None)"
| "resume (Result_failed_log err) r now today w =
     (case r of
        Fulfilled \<Rightarrow>
          suspend Result_failed_close
            (emit CloseOffscreen
               (setState error (Some (''Recording failed: '' @ template_string err)) (vars w))) w
      | Threw _ _ \<Rightarrow> finish (vars w) w
      | _ \<Rightarrow> None)"
| "resume Result_failed_close r now today w =
     (case r of Fulfilled \<Rightarrow> finish (vars w) w | _ \<Rightarrow> None)"
| "resume (Result_getSettings blobUrl durationMs) r now today w =
     (case r of
        Loaded settings \<Rightarrow>
          let filename = buildFilename (filenameTemplate settings)
                (case currentFreq (vars w) of Some f \<Rightarrow> f | None \<Rightarrow> 0)
                (case currentMode (vars w) of Some m \<Rightarrow> m | None \<Rightarrow> ''UNKNOWN'')
                None today
          in suspend (Result_download blobUrl durationMs filename)
               (emit (Download blobUrl (filename @ ''.webm'')) (vars w)) w
      | Threw errMsg _ \<Rightarrow> result_catch errMsg w
      | _ \<Rightarrow> None)"
| "resume (Result_download blobUrl durationMs filename) r now today w =
     (case r of
        Fulfilled \<Rightarrow>
          suspend Result_saved_log
            (emit (AddLog INFO (''Recording saved: '' @ filename @ ''.webm'')
               (Some (JObj [(''durationMs'', template_int durationMs)]))) (vars w)) w
      | Threw errMsg _ \<Rightarrow> result_catch errMsg w
      | _ \<Rightarrow> None)"
| "resume Result_saved_log r now today w =
     (case r of
        Fulfilled \<Rightarrow> suspend Result_close (emit CloseOffscreen (vars w)) w
      | Threw errMsg _ \<Rightarrow> result_catch errMsg w
      | _ \<Rightarrow> None)"
| "resume (Result_download_failed_log errMsg) r now today w =
     (case r of
        Fulfilled \<Rightarrow>
          suspend Result_returned_close
            (emit CloseOffscreen
               (setState error (Some (''Download failed: '' @ errMsg)) (vars w))) w
      | Threw _ _ \<Rightarrow> suspend Result_thrown_close (emit CloseOffscreen (vars w)) w
      | _ \<Rightarrow> None)"
| "resume Result_returned_close r now today w =
     (case r of Fulfilled \<Rightarrow> finish (vars w) w | _ \<Rightarrow> None)"
| "resume Result_thrown_close r now today w =
     (case r of Fulfilled \<Rightarrow> finish (vars w) w | _ \<Rightarrow> None)"
| "resume Result_close r now today w =
     (case r of
        Fulfilled \<Rightarrow>
          suspend Result_complete_log
            (emit (AddLog INFO ''Recording flow complete'' None) (setState idle None (vars w))) w
      | _ \<Rightarrow> None)"
| "resume Result_complete_log r now today w =
     (case r of
        Fulfilled \<Rightarrow> finish (vars w) w
      | Threw _ _ \<Rightarrow> finish (vars w) w
      | _ \<Rightarrow> None)"
| "resume Alarm_log r now today w =
     (case r of
        Fulfilled \<Rightarrow>
          let w1 = clear_interval w; s1 = vars w1
          in if currentState s1 = recording
             then suspend Alarm_signal
                    (sendToOffscreen [(''action'', JStr ''stopRecording'')] s1) w1
             else finish s1 w1
      | Threw _ _ \<Rightarrow> finish (vars w) w
      | _ \<Rightarrow> None)"
| "resume Alarm_signal r now today w =
     (case r of
        Fulfilled \<Rightarrow> suspend Alarm_wait (emit (Delay 2000) (vars w)) w
      | Threw _ _ \<Rightarrow> alarm_after_try w
      | _ \<Rightarrow> None)"
| "resume Alarm_wait r now today w =
     (case r of Fulfilled \<Rightarrow> alarm_after_try w | _ \<Rightarrow> None)"
| "resume Alarm_close r now today w =
     (case r of
        Fulfilled \<Rightarrow>
          suspend Alarm_stopped_log
            (emit (AddLog INFO ''Recording force-stopped by backup alarm'' None)
               (setState idle None (vars w))) w
      | _ \<Rightarrow> None)"
| "resume Alarm_stopped_log r now today w =
     (case r of
        Fulfilled \<Rightarrow> finish (vars w) w
      | Threw _ _ \<Rightarrow> finish (vars w) w
      | _ \<Rightarrow> None)"

subsection \<open>Events of the worker\<close>

text \<open>
  What makes the worker run a piece of code: a call of \<open>executeRecordingFlow\<close> (by the
  alarm listener or the \<open>manualRecord\<close> handler), of \<open>stopRecording\<close> or of \<open>resetState\<close>
  (by a message handler of the popup), the backup alarm, a message of the offscreen
  document, the callback of one of the interval timers that are set (with the value of
  \<open>Date.now()\<close>), and the promise of one of the suspended calls settling (with the values
  of \<open>Date.now()\<close> and \<open>new Date()\<close> while the call runs on). The browser may also stop
  the worker and start it again: the module variables are in memory only and get their
  initial values, and the suspended calls and the interval timers are gone.
\<close>

datatype event =
    Call_executeRecordingFlow RecordingParams
  | Call_stopRecording
  | Call_resetState
  | Stop_alarm_fired
  | Offscreen_message OffscreenResponse
  | Interval_fired nat int
  | Promise_settled nat response int Date
  | Worker_restarted

text \<open>A new call is suspended behind the others, unless it has ended already.\<close>

definition called :: "(worker \<times> task option) option \<Rightarrow> worker option" where
  "called r =
     (case r of
        None \<Rightarrow> None
      | Some (w, None) \<Rightarrow> Some w
      | Some (w, Some t) \<Rightarrow> Some (w\<lparr>tasks := tasks w @ [t]\<rparr>))"

text \<open>The call number \<open>i\<close> is suspended at its next \<open>await\<close>, or has ended.\<close>

definition resumed :: "nat \<Rightarrow> (worker \<times> task option) option \<Rightarrow> worker option" where
  "resumed i r =
     (case r of
        None \<Rightarrow> None
      | Some (w, None) \<Rightarrow> Some (w\<lparr>tasks := take i (tasks w) @ drop (Suc i) (tasks w)\<rparr>)
      | Some (w, Some t) \<Rightarrow> Some (w\<lparr>tasks := (tasks w)[i := t]\<rparr>))"

text \<open>One event; \<open>None\<close> when it cannot happen in this state.\<close>

fun worker_step :: "event \<Rightarrow> worker \<Rightarrow> worker option" where
  "worker_step (Call_executeRecordingFlow params) w = called (call_executeRecordingFlow params w)"
| "worker_step Call_stopRecording w = called (call_stopRecording w)"
| "worker_step Call_resetState w = Some (w\<lparr>vars := resetState (vars w)\<rparr>)"
| "worker_step Stop_alarm_fired w = called (call_onStopAlarm w)"
| "worker_step (Offscreen_message msg) w = called (call_handleOffscreenMessage msg w)"
| "worker_step (Interval_fired i now) w =
     (if i < length (tickers w)
      then let recordStart = tickers w ! i
           in Some (w\<lparr>vars := (vars w)\<lparr>recordingElapsed := Some ((now - recordStart) div 1000)\<rparr>\<rparr>)
      else None)"
| "worker_step (Promise_settled i r now today) w =
     (if i < length (tasks w) then resumed i (resume (tasks w ! i) r now today w) else None)"
| "worker_step Worker_restarted w =
     Some (initial_worker\<lparr>vars := initial_engine\<lparr>effects := effects (vars w)\<rparr>\<rparr>)"

fun worker_run :: "event list \<Rightarrow> worker \<Rightarrow> worker option" where
  "worker_run [] w = Some w"
| "worker_run (e # es) w =
     (case worker_step e w of None \<Rightarrow> None | Some w' \<Rightarrow> worker_run es w')"

text \<open>What the popup is shown of a state: the state and the two counters.\<close>

definition counters_after :: "event list \<Rightarrow> (RecordingState \<times> int option \<times> int option) option" where
  "counters_after es =
     map_option (\<lambda>w. (currentState (vars w), recordingElapsed (vars w), recordingTotal (vars w)))
       (worker_run es initial_worker)"

subsection \<open>The error message and the counters\<close>

text \<open>The error message goes with the state \<open>error\<close>.\<close>

definition error_only_in_error :: "engine \<Rightarrow> bool" where
  "error_only_in_error s = (errorMessage s \<noteq> None \<longrightarrow> currentState s = error)"

text \<open>
  What a piece of code may do to the two counters, from the module variables \<open>s\<close> to \<open>s'\<close>:
  if it enters \<open>idle\<close>, both counters are null; and if it does not end in \<open>recording\<close>,
  each counter is null or what it was.
\<close>

definition counters_kept :: "engine \<Rightarrow> engine \<Rightarrow> bool" where
  "counters_kept s s' =
     ((currentState s \<noteq> idle \<and> currentState s' = idle \<longrightarrow>
         recordingElapsed s' = None \<and> recordingTotal s' = None) \<and>
      (currentState s' \<noteq> recording \<longrightarrow>
         (recordingElapsed s' = None \<or> recordingElapsed s' = recordingElapsed s) \<and>
         (recordingTotal s' = None \<or> recordingTotal s' = recordingTotal s)))"

subsection \<open>Example values of the engine\<close>

definition example_settings :: Settings where
  "example_settings =
     \<lparr>wsHost = ''127.0.0.1'', wsPort = 17800, wsPath = ''/ws'', rigPort = 0,
      deviceId = ''usb-audio'', deviceLabel = ''USB Audio'',
      filenameTemplate = ''{date}_{time}_{freq}_{mode}''\<rparr>"

definition example_params :: RecordingParams where
  "example_params = \<lparr>p_frequency = 145500000, p_mode = ''FM'', p_dataMode = False, durationMin = 45\<rparr>"

definition example_flow_env :: flow_env where
  "example_flow_env =
     \<lparr>getSettings_result = Inr example_settings, connect_error = None,
      setFreq_result = Responds True None, setMode_result = Responds True None,
      ensureOffscreen_error = None, startRecording_error = None, alarmCreate_error = None,
      date_now = 0\<rparr>"


definition example_recording :: engine where
  "example_recording = executeRecordingFlow example_flow_env example_params initial_engine"

text \<open>
  Example runs of the worker. In \<open>events_until_recording\<close> a flow is called and every
  promise it awaits is fulfilled, up to the \<open>addLog\<close> after the mode is set: the flow is
  then in step 4, suspended at \<open>await ensureOffscreen()\<close>. \<open>events_recording_started\<close> are
  the four promises step 4 awaits, fulfilled.
\<close>

definition fulfilled :: "nat \<Rightarrow> event" where
  "fulfilled i = Promise_settled i Fulfilled 0 example_date"

definition events_until_recording :: "event list" where
  "events_until_recording =
     [Call_executeRecordingFlow example_params,
      Promise_settled 0 (Loaded example_settings) 0 example_date,
      fulfilled 0, fulfilled 0, fulfilled 0,
      Promise_settled 0 (Answered True None) 0 example_date,
      fulfilled 0, fulfilled 0,
      Promise_settled 0 (Answered True None) 0 example_date,
      fulfilled 0]"

definition events_recording_started :: "event list" where
  "events_recording_started = [fulfilled 0, fulfilled 0, fulfilled 0, fulfilled 0]"

text \<open>The recording fails: the offscreen document reports it, and the result is handled
  up to the end of \<open>handleRecordingResult\<close>'s failure branch.\<close>

definition events_recording_failed :: "event list" where
  "events_recording_failed =
     events_until_recording @ events_recording_started @
     [Offscreen_message (RecordingResult False None None (Some ''No audio data recorded'')),
      fulfilled 0, fulfilled 0]"

text \<open>The recording succeeds: the result is handled up to \<open>await getSettings()\<close>.\<close>

definition events_recording_saving :: "event list" where
  "events_recording_saving =
     events_until_recording @ events_recording_started @
     [Offscreen_message (RecordingResult True (Some ''blob:recording'') (Some 2700000) None),
      fulfilled 0]"

text \<open>
  \<open>stopRecording\<close> is called while the flow is suspended at \<open>await ensureOffscreen()\<close>. It
  runs up to its two-second wait (\<open>clearProgressInterval()\<close> finds no timer); the flow runs
  to its end and sets the interval timer; the wait ends, the state is still \<open>recording\<close>,
  and \<open>stopRecording\<close> closes the offscreen document and sets the state to \<open>idle\<close>. Three
  seconds after the flow ended, the interval timer fires.
\<close>

definition events_stopped_while_starting :: "event list" where
  "events_stopped_while_starting =
     events_until_recording @
     [Call_stopRecording, fulfilled 1, fulfilled 1, fulfilled 1] @
     events_recording_started @
     [fulfilled 0, fulfilled 0, fulfilled 0, Interval_fired 0 3000]"

text \<open>After that, the next flow is called, and runs up to each of its first three steps.\<close>

definition events_next_connecting :: "event list" where
  "events_next_connecting =
     events_stopped_while_starting @
     [Call_executeRecordingFlow example_params,
      Promise_settled 0 (Loaded example_settings) 0 example_date,
      fulfilled 0]"

definition events_next_setting_freq :: "event list" where
  "events_next_setting_freq = events_next_connecting @ [fulfilled 0, fulfilled 0]"

definition events_next_setting_mode :: "event list" where
  "events_next_setting_mode =
     events_next_setting_freq @
     [Promise_settled 0 (Answered True None) 0 example_date, fulfilled 0, fulfilled 0]"

text \<open>Events that write a counter themselves: the callback of an interval timer, and a
  progress message of the offscreen document.\<close>

fun writes_counter :: "event \<Rightarrow> bool" where
  "writes_counter (Interval_fired _ _) = True"
| "writes_counter (Offscreen_message (RecordingProgress _ _)) = True"
| "writes_counter _ = False"

section \<open>Properties of the storage helpers\<close>

subsection \<open>Duration of a schedule\<close>

lemma digit_val_range: "is_digit c \<Longrightarrow> 0 \<le> digit_val c \<and> digit_val c \<le> 9"
  by (auto simp: is_digit_def digit_val_def)

lemma digit_not_colon: "is_digit c \<Longrightarrow> c \<noteq> CHR '':''"
  by (auto simp: is_digit_def)

lemma is_HHMM_D:
  "is_HHMM s \<Longrightarrow> \<exists>h1 h2 m1 m2. s = [h1, h2, CHR '':'', m1, m2] \<and>
      is_digit h1 \<and> is_digit h2 \<and> is_digit m1 \<and> is_digit m2 \<and>
      10 * digit_val h1 + digit_val h2 < 24 \<and> 10 * digit_val m1 + digit_val m2 < 60"
  unfolding is_HHMM_def by (simp split: list.splits)

lemma split_colon_HHMM:
  "is_digit h1 \<Longrightarrow> is_digit h2 \<Longrightarrow> is_digit m1 \<Longrightarrow> is_digit m2 \<Longrightarrow>
   split_colon [h1, h2, CHR '':'', m1, m2] = [[h1, h2], [m1, m2]]"
  by (simp add: digit_not_colon)

lemma Number_dec_two:
  "is_digit a \<Longrightarrow> is_digit b \<Longrightarrow> Number_dec [a, b] = Some (10 * digit_val a + digit_val b)"
  by (simp add: Number_dec_def)

lemma parse_HHMM:
  assumes "is_HHMM s"
  shows "\<exists>h m. first_two_numbers (split_colon s) = (Some h, Some m) \<and>
           0 \<le> h \<and> h < 24 \<and> 0 \<le> m \<and> m < 60 \<and> minutes_of s = h * 60 + m"
proof -
  from is_HHMM_D [OF assms] obtain h1 h2 m1 m2 where
    s: "s = [h1, h2, CHR '':'', m1, m2]" and
    d: "is_digit h1" "is_digit h2" "is_digit m1" "is_digit m2" and
    r: "10 * digit_val h1 + digit_val h2 < 24" "10 * digit_val m1 + digit_val m2 < 60"
    by blast
  have f: "first_two_numbers (split_colon s) =
      (Some (10 * digit_val h1 + digit_val h2), Some (10 * digit_val m1 + digit_val m2))"
    unfolding s split_colon_HHMM [OF d] by (simp add: first_two_numbers_def Number_dec_two d)
  have m: "minutes_of s =
      (10 * digit_val h1 + digit_val h2) * 60 + (10 * digit_val m1 + digit_val m2)"
    by (simp add: s minutes_of_def)
  from digit_val_range [OF d(1)] digit_val_range [OF d(2)]
    digit_val_range [OF d(3)] digit_val_range [OF d(4)]
  have "0 \<le> 10 * digit_val h1 + digit_val h2" "0 \<le> 10 * digit_val m1 + digit_val m2"
    by linarith+
  with f m r show ?thesis by blast
qed

lemma computeDurationMin_HHMM:
  assumes "is_HHMM s" "is_HHMM e"
  shows "computeDurationMin s e =
      Some (if minutes_of e - minutes_of s \<le> 0 then minutes_of e - minutes_of s + 1440
            else minutes_of e - minutes_of s)"
    and "0 \<le> minutes_of s" "minutes_of s < 1440" "0 \<le> minutes_of e" "minutes_of e < 1440"
proof -
  from parse_HHMM [OF assms(1)] obtain sh sm where
    ps: "first_two_numbers (split_colon s) = (Some sh, Some sm)" and
    rs: "0 \<le> sh" "sh < 24" "0 \<le> sm" "sm < 60" and ms: "minutes_of s = sh * 60 + sm"
    by blast
  from parse_HHMM [OF assms(2)] obtain eh em where
    pe: "first_two_numbers (split_colon e) = (Some eh, Some em)" and
    re: "0 \<le> eh" "eh < 24" "0 \<le> em" "em < 60" and me: "minutes_of e = eh * 60 + em"
    by blast
  show "computeDurationMin s e =
      Some (if minutes_of e - minutes_of s \<le> 0 then minutes_of e - minutes_of s + 1440
            else minutes_of e - minutes_of s)"
    by (simp add: computeDurationMin_def ps pe ms me Let_def)
  show "0 \<le> minutes_of s" "minutes_of s < 1440" "0 \<le> minutes_of e" "minutes_of e < 1440"
    using rs re ms me by linarith+
qed

text \<open>
  C1 (as stated, refuted): for a start and an end that are the same time of day the
  code returns 1440 minutes, which is not \<open>(end - start) mod 1440 = 0\<close>.
\<close>

theorem computeDurationMin_same_time_counterexample:
  "is_HHMM ''08:00'' \<and>
   computeDurationMin ''08:00'' ''08:00'' = Some 1440 \<and>
   computeDurationMin ''08:00'' ''08:00''
     \<noteq> Some ((minutes_of ''08:00'' - minutes_of ''08:00'') mod 1440)"
  by (simp add: computeDurationMin_def first_two_numbers_def Number_dec_def is_HHMM_def
      is_digit_def digit_val_def minutes_of_def)

text \<open>
  C1 (amended): for every pair of \<open>HH:MM\<close> times the duration is defined, strictly
  positive and at most 1440 minutes; it equals \<open>(end - start) mod 1440\<close> when the two times
  differ and is a full day, 1440 minutes, when they are the same. In every case it is
  congruent to \<open>end - start\<close> modulo 1440.
\<close>

theorem computeDurationMin_positive_mod_1440:
  assumes "is_HHMM s" "is_HHMM e"
  shows "\<exists>d. computeDurationMin s e = Some d \<and> 0 < d \<and> d \<le> 1440 \<and>
           d = (if minutes_of e = minutes_of s then 1440
                else (minutes_of e - minutes_of s) mod 1440) \<and>
           d mod 1440 = (minutes_of e - minutes_of s) mod 1440"
proof -
  note c = computeDurationMin_HHMM(1) [OF assms]
  note b = computeDurationMin_HHMM(2-5) [OF assms]
  show ?thesis
  proof (cases "minutes_of e \<le> minutes_of s")
    case True
    show ?thesis
    proof (cases "minutes_of e = minutes_of s")
      case True
      then show ?thesis by (simp add: c)
    next
      case False
      with True b
      have "(minutes_of e - minutes_of s) mod 1440 = minutes_of e - minutes_of s + 1440"
        by (intro int_mod_pos_eq [where q = "-1"]) linarith+
      moreover have "(minutes_of e - minutes_of s + 1440) mod 1440
          = (minutes_of e - minutes_of s) mod 1440"
        by simp
      ultimately show ?thesis using True False b by (simp add: c)
    qed
  next
    case False
    with b have "(minutes_of e - minutes_of s) mod 1440 = minutes_of e - minutes_of s"
      by (intro mod_pos_pos_trivial) linarith+
    with False b show ?thesis by (simp add: c)
  qed
qed

theorem computeDurationMin_positive_mod_1440_witness:
  "is_HHMM ''23:30'' \<and> is_HHMM ''00:15'' \<and> computeDurationMin ''23:30'' ''00:15'' = Some 45"
proof -
  have s: "is_HHMM ''23:30''" and e: "is_HHMM ''00:15''"
    by (simp_all add: is_HHMM_def is_digit_def digit_val_def)
  have m: "minutes_of ''23:30'' = 1410" "minutes_of ''00:15'' = 15"
    by (simp_all add: minutes_of_def digit_val_def)
  from computeDurationMin_positive_mod_1440 [OF s e] s e show ?thesis
    by (simp add: m)
qed

subsection \<open>The activity log\<close>

lemma getLogs_addLog:
  "getLogs (addLog now lv msg d st) =
     take MAX_LOGS (\<lparr>timestamp = now, level = lv, message = msg, data = d\<rparr> # getLogs st)"
  by (simp add: addLog_def getLogs_def Let_def)

lemma getLogs_addLog_call: "getLogs (addLog_call st c) = take MAX_LOGS (entry_of c # getLogs st)"
  by (cases c) (simp add: addLog_call_def entry_of_def getLogs_addLog)

lemma take_Cons_take: "take n (x # take n xs) = take n (x # xs)"
  by (cases n) simp_all

lemma getLogs_addLogs:
  "calls \<noteq> [] \<Longrightarrow>
   getLogs (addLogs calls st) = take MAX_LOGS (rev (map entry_of calls) @ getLogs st)"
proof (induction calls rule: rev_induct)
  case Nil
  then show ?case by simp
next
  case (snoc c calls)
  show ?case
  proof (cases "calls = []")
    case True
    then show ?thesis by (simp add: addLogs_def getLogs_addLog_call)
  next
    case False
    with snoc.IH have IH:
      "getLogs (addLogs calls st) = take MAX_LOGS (rev (map entry_of calls) @ getLogs st)"
      by simp
    have "getLogs (addLogs (calls @ [c]) st)
        = take MAX_LOGS (entry_of c # getLogs (addLogs calls st))"
      by (simp add: addLogs_def getLogs_addLog_call)
    also have "\<dots>
        = take MAX_LOGS (entry_of c # take MAX_LOGS (rev (map entry_of calls) @ getLogs st))"
      by (simp only: IH)
    also have "\<dots> = take MAX_LOGS (entry_of c # rev (map entry_of calls) @ getLogs st)"
      by (rule take_Cons_take)
    finally show ?thesis by simp
  qed
qed

text \<open>
  C8: after every \<open>addLog\<close> call of any sequence of calls, from any stored list, the stored
  list has at most 200 entries; the call puts its entry in front of the list stored before
  it and keeps the first 200, so the list is the entries of the calls, newest first,
  followed by the original list, cut to 200.
\<close>

theorem addLog_bounded_newest_first:
  "length (getLogs (addLogs (calls @ [c]) st)) \<le> 200 \<and>
   getLogs (addLogs (calls @ [c]) st) = take 200 (entry_of c # getLogs (addLogs calls st)) \<and>
   getLogs (addLogs (calls @ [c]) st)
     = take 200 (rev (map entry_of (calls @ [c])) @ getLogs st)"
proof -
  have 1: "getLogs (addLogs (calls @ [c]) st)
      = take 200 (entry_of c # getLogs (addLogs calls st))"
    by (simp add: addLogs_def getLogs_addLog_call MAX_LOGS_def)
  have 2: "getLogs (addLogs (calls @ [c]) st)
      = take 200 (rev (map entry_of (calls @ [c])) @ getLogs st)"
    using getLogs_addLogs [of "calls @ [c]" st] by (simp add: MAX_LOGS_def)
  from 1 have "length (getLogs (addLogs (calls @ [c]) st)) \<le> 200" by simp
  with 1 2 show ?thesis by blast
qed

subsection \<open>Saving a schedule\<close>

lemma findIndex_from_neg: "(findIndex_from P xs i < 0) = (\<forall>x\<in>set xs. \<not> P x)"
  by (induction xs arbitrary: i) auto

lemma findIndex_from_found:
  "findIndex_from P xs i \<ge> 0 \<Longrightarrow>
     \<exists>k<length xs. findIndex_from P xs i = int (i + k) \<and> P (xs ! k) \<and> (\<forall>j<k. \<not> P (xs ! j))"
proof (induction xs arbitrary: i)
  case Nil
  then show ?case by simp
next
  case (Cons x xs)
  show ?case
  proof (cases "P x")
    case True
    then show ?thesis by (intro exI [of _ 0]) simp
  next
    case False
    with Cons.prems have "findIndex_from P xs (Suc i) \<ge> 0" by simp
    from Cons.IH [OF this] obtain k where k: "k < length xs"
      "findIndex_from P xs (Suc i) = int (Suc i + k)" "P (xs ! k)" "\<forall>j<k. \<not> P (xs ! j)"
      by blast
    show ?thesis
    proof (intro exI [of _ "Suc k"] conjI allI impI)
      show "Suc k < length (x # xs)" using k by simp
      show "findIndex_from P (x # xs) i = int (i + Suc k)" using False k by simp
      show "P ((x # xs) ! Suc k)" using k by simp
      fix j assume "j < Suc k"
      then show "\<not> P ((x # xs) ! j)" using False k by (cases j) auto
    qed
  qed
qed

text \<open>
  C10: \<open>upsertSchedule\<close> either finds an entry with the schedule's id (the first one) and
  replaces it where it stands, keeping the length of the list and every other entry at its
  position, or finds none and appends the schedule at the end, making the list one longer.
\<close>

theorem upsertSchedule_replace_or_append:
  "(\<exists>i<length (getSchedules st).
       schedule_id (getSchedules st ! i) = schedule_id s \<and>
       (\<forall>j<i. schedule_id (getSchedules st ! j) \<noteq> schedule_id s) \<and>
       getSchedules (upsertSchedule s st) = (getSchedules st)[i := s] \<and>
       length (getSchedules (upsertSchedule s st)) = length (getSchedules st) \<and>
       getSchedules (upsertSchedule s st) ! i = s \<and>
       (\<forall>j<length (getSchedules st). j \<noteq> i \<longrightarrow>
          getSchedules (upsertSchedule s st) ! j = getSchedules st ! j))
   \<or> ((\<forall>x\<in>set (getSchedules st). schedule_id x \<noteq> schedule_id s) \<and>
       getSchedules (upsertSchedule s st) = getSchedules st @ [s] \<and>
       length (getSchedules (upsertSchedule s st)) = length (getSchedules st) + 1)"
proof (cases "findIndex (\<lambda>x. schedule_id x = schedule_id s) (getSchedules st) \<ge> 0")
  case True
  from findIndex_from_found [OF True [unfolded findIndex_def]] obtain k where
    k: "k < length (getSchedules st)"
       "findIndex (\<lambda>x. schedule_id x = schedule_id s) (getSchedules st) = int k"
       "schedule_id (getSchedules st ! k) = schedule_id s"
       "\<forall>j<k. schedule_id (getSchedules st ! j) \<noteq> schedule_id s"
    by (auto simp: findIndex_def)
  have u: "getSchedules (upsertSchedule s st) = (getSchedules st)[k := s]"
    using k(2) by (simp add: upsertSchedule_def Let_def saveSchedules_def getSchedules_def)
  show ?thesis
    by (rule disjI1, rule exI [of _ k]) (use k u in simp)
next
  case False
  then have n: "\<forall>x\<in>set (getSchedules st). schedule_id x \<noteq> schedule_id s"
    using findIndex_from_neg [of "\<lambda>x. schedule_id x = schedule_id s" "getSchedules st" 0]
    by (simp add: findIndex_def)
  have u: "getSchedules (upsertSchedule s st) = getSchedules st @ [s]"
    using False by (simp add: upsertSchedule_def Let_def saveSchedules_def getSchedules_def)
  show ?thesis
    by (rule disjI2) (use n u in simp)
qed

theorem upsertSchedule_replace_or_append_witness:
  "getSchedules (upsertSchedule (example_schedule ''b'' 7074000)
      \<lparr>stored_schedules = Some [example_schedule ''a'' 145500000,
         example_schedule ''b'' 14074000, example_schedule ''c'' 3573000],
       stored_logs = None\<rparr>)
   = [example_schedule ''a'' 145500000, example_schedule ''b'' 7074000,
      example_schedule ''c'' 3573000]"
proof -
  have e: "getSchedules (upsertSchedule (example_schedule ''b'' 7074000)
      \<lparr>stored_schedules = Some [example_schedule ''a'' 145500000,
         example_schedule ''b'' 14074000, example_schedule ''c'' 3573000],
       stored_logs = None\<rparr>)
   = [example_schedule ''a'' 145500000, example_schedule ''b'' 7074000,
      example_schedule ''c'' 3573000]"
    by (simp add: upsertSchedule_def getSchedules_def saveSchedules_def findIndex_def
        Let_def example_schedule_def)
  from upsertSchedule_replace_or_append [of
      "\<lparr>stored_schedules = Some [example_schedule ''a'' 145500000,
         example_schedule ''b'' 14074000, example_schedule ''c'' 3573000],
       stored_logs = None\<rparr>" "example_schedule ''b'' 7074000"] e
  show ?thesis by (simp only:)
qed

subsection \<open>Placeholders of the filename template\<close>

lemma string_of_nat_digit: "n < 10 \<Longrightarrow> string_of_nat n = [digit_char n]"
  by (simp add: string_of_nat.simps)

lemma string_of_nat_digits:
  "\<not> n < 10 \<Longrightarrow> string_of_nat n = string_of_nat (n div 10) @ [digit_char (n mod 10)]"
  by (subst string_of_nat.simps) simp

lemma placeholder_token: "p \<in> set placeholders \<Longrightarrow> token p"
  by (auto simp: placeholders_def token_def)

lemma indexOf_Some:
  "indexOf pat s = Some i \<Longrightarrow> s = take i s @ pat @ drop (i + length pat) s"
proof (induction s arbitrary: i)
  case Nil
  then show ?case by (simp split: if_splits)
next
  case (Cons c cs)
  show ?case
  proof (cases "prefix pat (c # cs)")
    case True
    with Cons.prems have "i = 0" by simp
    with True show ?thesis by (auto simp: prefix_def)
  next
    case False
    with Cons.prems obtain j where j: "indexOf pat cs = Some j" "i = Suc j" by auto
    from Cons.IH [OF j(1)] show ?thesis by (simp add: j(2))
  qed
qed

lemma indexOf_first:
  "indexOf pat s = Some i \<Longrightarrow> j < i \<Longrightarrow> \<not> prefix pat (drop j s)"
proof (induction s arbitrary: i j)
  case Nil
  then show ?case by (simp split: if_splits)
next
  case (Cons c cs)
  show ?case
  proof (cases "prefix pat (c # cs)")
    case True
    with Cons.prems show ?thesis by simp
  next
    case False
    with Cons.prems obtain k where k: "indexOf pat cs = Some k" "i = Suc k" by auto
    show ?thesis
    proof (cases j)
      case 0
      with False show ?thesis by simp
    next
      case (Suc j')
      with Cons.prems k have "j' < k" by simp
      from Cons.IH [OF k(1) this] Suc show ?thesis by simp
    qed
  qed
qed

lemma js_replace_first_occurrence:
  assumes "indexOf pat s = Some i"
  shows "js_replace pat rep s =
           take i s @ getSubstitution pat (take i s) (drop (i + length pat) s) rep
             @ drop (i + length pat) s"
    and "s = take i s @ pat @ drop (i + length pat) s"
    and "\<forall>j<i. \<not> prefix pat (drop j s)"
  using assms indexOf_Some [OF assms] indexOf_first [OF assms]
  by (simp_all add: js_replace_def)

text \<open>The texts put in for \<open>{date}\<close>, \<open>{time}\<close> and \<open>{freq}\<close> are digits and minus signs.\<close>

lemma is_digit_digit_char: "n < 10 \<Longrightarrow> is_digit (digit_char n)"
proof -
  assume "n < 10"
  then have "''0123456789'' ! n \<in> set ''0123456789''" by (intro nth_mem) simp
  then show ?thesis unfolding is_digit_def digit_char_def .
qed

lemma string_of_nat_digits_only: "list_all is_digit (string_of_nat n) \<and> string_of_nat n \<noteq> []"
proof (induction n rule: string_of_nat.induct)
  case (1 n)
  show ?case
  proof (cases "n < 10")
    case True
    then show ?thesis by (simp add: string_of_nat_digit is_digit_digit_char)
  next
    case False
    with 1 show ?thesis by (simp add: string_of_nat_digits is_digit_digit_char)
  qed
qed

lemma plain_append: "plain a \<Longrightarrow> plain b \<Longrightarrow> plain (a @ b)"
  by (simp add: plain_def)

lemma plain_String_int: "plain (String_int i)"
  using string_of_nat_digits_only [of "nat i"] string_of_nat_digits_only [of "nat (- i)"]
  by (simp add: plain_def String_int_def list_all_iff)

lemma is_digit_0: "is_digit CHR ''0''"
  by (simp add: is_digit_def)

lemma plain_pad: "plain (pad n)"
  using plain_String_int [of n]
  by (auto simp: plain_def pad_def padStart_def list_all_iff is_digit_0)

lemma plain_date_string: "plain (date_string d)"
  by (simp add: date_string_def plain_append plain_String_int plain_pad)

lemma plain_time_string: "plain (time_string d)"
  by (simp add: time_string_def plain_append plain_pad)

lemma plain_char:
  "is_digit c \<or> c = CHR ''-'' \<Longrightarrow>
     c \<noteq> CHR ''{'' \<and> c \<noteq> CHR ''$'' \<and> (\<forall>p\<in>set placeholders. c \<notin> set p)"
  by (auto simp: is_digit_def placeholders_def)

lemma plain_no_brace: "plain v \<Longrightarrow> CHR ''{'' \<notin> set v"
  using plain_char by (auto simp: plain_def list_all_iff)

lemma plain_no_dollar: "plain v \<Longrightarrow> CHR ''$'' \<notin> set v"
  using plain_char by (auto simp: plain_def list_all_iff)

lemma plain_hd: "plain v \<Longrightarrow> \<exists>c w. v = c # w \<and> (is_digit c \<or> c = CHR ''-'')"
  by (cases v) (auto simp: plain_def)

lemma placeholder_chars:
  "p \<in> set placeholders \<Longrightarrow> \<forall>c\<in>set p. \<not> (is_digit c \<or> c = CHR ''-'')"
  using plain_char by blast

text \<open>A replacement text without a dollar sign is put in as it is.\<close>

lemma getSubstitution_no_dollar:
  "CHR ''$'' \<notin> set rep \<Longrightarrow> getSubstitution matched pre post rep = rep"
  by (induction matched pre post rep rule: getSubstitution.induct) auto

lemma js_replace_no_dollar:
  "CHR ''$'' \<notin> set v \<Longrightarrow>
     js_replace q v s =
       (case indexOf q s of None \<Rightarrow> s | Some i \<Rightarrow> take i s @ v @ drop (i + length q) s)"
  by (simp add: js_replace_def getSubstitution_no_dollar split: option.splits)

text \<open>How \<open>indexOf\<close> moves over a placeholder at the head of the string.\<close>

lemma token_prefix_same: "token p \<Longrightarrow> token q \<Longrightarrow> prefix q (p @ r) = (q = p)"
proof
  assume t: "token p" "token q" and "prefix q (p @ r)"
  then obtain zs where "p @ r = q @ zs" by (auto simp: prefix_def)
  moreover have "length p = length q" using t by (simp add: token_def)
  ultimately show "q = p" by simp
qed simp

lemma indexOf_no_brace:
  "token q \<Longrightarrow> CHR ''{'' \<notin> set w \<Longrightarrow> indexOf q (w @ r) = map_option (\<lambda>i. i + length w) (indexOf q r)"
proof (induction w)
  case Nil
  then show ?case by (simp add: option.map_ident)
next
  case (Cons c w)
  then have "\<not> prefix q (c # w @ r)" by (cases q) (auto simp: token_def)
  with Cons show ?case by (simp add: option.map_comp comp_def)
qed

lemma indexOf_token_head: "token q \<Longrightarrow> indexOf q (q @ r) = Some 0"
  by (cases q) (auto simp: token_def)

lemma indexOf_skip_token:
  assumes "token p" "token q" "q \<noteq> p"
  shows "indexOf q (p @ r) = map_option (\<lambda>i. i + 6) (indexOf q r)"
proof -
  from assms(1) obtain w where p: "p = CHR ''{'' # w" "CHR ''{'' \<notin> set w" "length w = 5"
    by (cases p) (auto simp: token_def)
  have "\<not> prefix q (p @ r)" using token_prefix_same [OF assms(1,2)] assms(3) by simp
  then have "indexOf q (p @ r) = map_option Suc (indexOf q (w @ r))" by (simp add: p(1))
  also have "\<dots> = map_option (\<lambda>i. i + 6) (indexOf q r)"
    by (cases "indexOf q r") (simp_all add: indexOf_no_brace [OF assms(2) p(2)] p(3))
  finally show ?thesis .
qed

text \<open>How the single pass moves over one character and over a placeholder.\<close>

lemma find_placeholder_Some:
  assumes "find (\<lambda>q. prefix q s) placeholders = Some p"
  shows "p \<in> set placeholders \<and> (\<exists>r. s = p @ r)"
proof -
  from assms obtain i where "i < length placeholders" "prefix (placeholders ! i) s"
    "p = placeholders ! i" unfolding find_Some_iff by blast
  then show ?thesis by (auto simp: prefix_def)
qed

lemma find_placeholder_None:
  "find (\<lambda>q. prefix q s) placeholders = None \<longleftrightarrow> (\<forall>q\<in>set placeholders. \<not> prefix q s)"
  by (auto simp: find_None_iff)

lemma replace_first_each_token:
  "p \<in> set placeholders \<Longrightarrow>
     replace_first_each vals (p @ r) =
       (case vals p of
          Some v \<Rightarrow> v @ replace_first_each (vals(p := None)) r
        | None \<Rightarrow> p @ replace_first_each vals r)"
  by (auto simp: placeholders_def split: option.splits)

lemma replace_first_each_char:
  "find (\<lambda>q. prefix q (c # cs)) placeholders = None \<Longrightarrow>
     replace_first_each vals (c # cs) = c # replace_first_each vals cs"
  by simp

lemma replace_first_each_no_brace:
  "CHR ''{'' \<notin> set v \<Longrightarrow> replace_first_each vals (v @ s) = v @ replace_first_each vals s"
proof (induction v)
  case Nil
  then show ?case by simp
next
  case (Cons c v)
  then have "find (\<lambda>q. prefix q (c # v @ s)) placeholders = None"
    by (simp add: placeholders_def)
  with Cons show ?case by simp
qed

lemma replace_first_each_empty: "replace_first_each Map.empty s = s"
proof (induction s rule: length_induct)
  case (1 s)
  show ?case
  proof (cases s)
    case Nil
    then show ?thesis by simp
  next
    case (Cons c cs)
    show ?thesis
    proof (cases "find (\<lambda>q. prefix q s) placeholders")
      case None
      with 1 Cons show ?thesis by simp
    next
      case (Some p)
      from find_placeholder_Some [OF Some] obtain r where p: "p \<in> set placeholders" "s = p @ r"
        by blast
      from p(1) have "length r < length s" by (auto simp: p(2) placeholders_def)
      with 1 have "replace_first_each Map.empty r = r" by blast
      then show ?thesis by (simp add: p(2) replace_first_each_token [OF p(1)])
    qed
  qed
qed

text \<open>A text of digits put in for a placeholder makes no new placeholder.\<close>

lemma prefix_js_replace_plain:
  assumes "q \<noteq> []" "plain v"
  shows "\<forall>c\<in>set u. \<not> (is_digit c \<or> c = CHR ''-'') \<Longrightarrow> prefix u (js_replace q v s) \<Longrightarrow> prefix u s"
proof (induction s arbitrary: u)
  case Nil
  with assms(1) show ?case by (simp add: js_replace_def)
next
  case (Cons c cs)
  note nd = plain_no_dollar [OF assms(2)]
  show ?case
  proof (cases u)
    case Nil
    then show ?thesis by simp
  next
    case u: (Cons a u')
    show ?thesis
    proof (cases "prefix q (c # cs)")
      case True
      then have "js_replace q v (c # cs) = v @ drop (length q) (c # cs)"
        by (simp add: js_replace_no_dollar [OF nd])
      moreover from plain_hd [OF assms(2)] obtain b w
        where "v = b # w" "is_digit b \<or> b = CHR ''-''" by blast
      ultimately show ?thesis using Cons.prems u by auto
    next
      case False
      then have j: "js_replace q v (c # cs) = c # js_replace q v cs"
        by (simp add: js_replace_no_dollar [OF nd] split: option.splits)
      from Cons.prems(2) have "a = c" "prefix u' (js_replace q v cs)" by (simp_all add: u j)
      moreover from Cons.prems(1) have "\<forall>c\<in>set u'. \<not> (is_digit c \<or> c = CHR ''-'')"
        by (simp add: u)
      ultimately show ?thesis using Cons.IH [of u'] by (simp add: u)
    qed
  qed
qed

lemma js_replace_plain_char:
  assumes "plain v" "\<not> prefix q (c # cs)"
  shows "js_replace q v (c # cs) = c # js_replace q v cs"
  using assms(2) by (simp add: js_replace_no_dollar [OF plain_no_dollar [OF assms(1)]]
      split: option.splits)

lemma js_replace_plain_head:
  assumes "plain v" "token q"
  shows "js_replace q v (q @ r) = v @ r"
  using assms(2)
  by (simp add: js_replace_no_dollar [OF plain_no_dollar [OF assms(1)]]
      indexOf_token_head [OF assms(2)])

lemma js_replace_plain_skip_token:
  assumes "plain v" "token p" "token q" "q \<noteq> p"
  shows "js_replace q v (p @ r) = p @ js_replace q v r"
proof -
  have "length p = 6" using assms(2) by (simp add: token_def)
  then show ?thesis
    by (simp add: js_replace_no_dollar [OF plain_no_dollar [OF assms(1)]]
        indexOf_skip_token [OF assms(2,3,4)] token_def split: option.splits)
qed

text \<open>
  One \<open>replace\<close> of \<open>buildFilename\<close> with a text of digits does what the single pass does
  for that placeholder.
\<close>

lemma replace_first_each_peel:
  assumes q: "q \<in> set placeholders" and v: "plain v"
  shows "vals q = None \<Longrightarrow>
           replace_first_each (vals(q \<mapsto> v)) s = replace_first_each vals (js_replace q v s)"
proof (induction s arbitrary: vals rule: length_induct)
  case (1 s)
  note tq = placeholder_token [OF q]
  then have qn: "q \<noteq> []" by (auto simp: token_def)
  have ih: "\<And>r vals'. length r < length s \<Longrightarrow> vals' q = None \<Longrightarrow>
      replace_first_each (vals'(q \<mapsto> v)) r = replace_first_each vals' (js_replace q v r)"
    using 1 by blast
  show ?case
  proof (cases s)
    case Nil
    with qn show ?thesis by (simp add: js_replace_def)
  next
    case (Cons c cs)
    show ?thesis
    proof (cases "find (\<lambda>p. prefix p s) placeholders")
      case None
      then have nq: "\<not> prefix q (c # cs)" using q by (simp add: find_placeholder_None Cons)
      have j: "js_replace q v s = c # js_replace q v cs"
        unfolding Cons by (rule js_replace_plain_char [OF v nq])
      have "find (\<lambda>p. prefix p (js_replace q v s)) placeholders = None"
        unfolding find_placeholder_None
      proof
        fix p assume p: "p \<in> set placeholders"
        show "\<not> prefix p (js_replace q v s)"
        proof
          assume "prefix p (js_replace q v s)"
          from prefix_js_replace_plain [OF qn v placeholder_chars [OF p] this]
          show False using None p by (simp add: find_placeholder_None)
        qed
      qed
      then have "replace_first_each vals (js_replace q v s)
                   = c # replace_first_each vals (js_replace q v cs)"
        unfolding j by (rule replace_first_each_char)
      moreover have "replace_first_each (vals(q \<mapsto> v)) s
                   = c # replace_first_each (vals(q \<mapsto> v)) cs"
        using None unfolding Cons by (rule replace_first_each_char)
      moreover have "replace_first_each (vals(q \<mapsto> v)) cs
                   = replace_first_each vals (js_replace q v cs)"
        by (rule ih) (simp_all add: Cons "1.prems")
      ultimately show ?thesis by (simp only:)
    next
      case (Some p)
      from find_placeholder_Some [OF Some] obtain r where p: "p \<in> set placeholders" "s = p @ r"
        by blast
      note tp = placeholder_token [OF p(1)]
      from tp have len: "length r < length s" by (simp add: p(2) token_def)
      show ?thesis
      proof (cases "p = q")
        case True
        have e: "(vals(q \<mapsto> v))(q := None) = vals"
          using "1.prems" by (simp add: fun_upd_idem)
        have "replace_first_each (vals(q \<mapsto> v)) s = v @ replace_first_each vals r"
          unfolding p(2) True replace_first_each_token [OF q] by (simp only: e) simp
        moreover have "replace_first_each vals (js_replace q v s) = v @ replace_first_each vals r"
          by (simp add: p(2) True js_replace_plain_head [OF v tq]
              replace_first_each_no_brace [OF plain_no_brace [OF v]])
        ultimately show ?thesis by (simp only:)
      next
        case False
        then have qp: "q \<noteq> p" by simp
        have j: "js_replace q v (p @ r) = p @ js_replace q v r"
          by (rule js_replace_plain_skip_token [OF v tp tq qp])
        have u: "(vals(q \<mapsto> v))(p := None) = (vals(p := None))(q \<mapsto> v)"
          using qp by (simp add: fun_upd_twist)
        have vp: "(vals(q \<mapsto> v)) p = vals p" using qp by simp
        show ?thesis
        proof (cases "vals p")
          case None
          from "1.prems" have "replace_first_each (vals(q \<mapsto> v)) r
              = replace_first_each vals (js_replace q v r)"
            by (rule ih [OF len])
          then show ?thesis
            unfolding p(2) j replace_first_each_token [OF p(1)] vp None by (simp only: option.case)
        next
          case (Some w)
          have "(vals(p := None)) q = None" using "1.prems" by simp
          then have "replace_first_each ((vals(p := None))(q \<mapsto> v)) r
              = replace_first_each (vals(p := None)) (js_replace q v r)"
            by (rule ih [OF len])
          then show ?thesis
            unfolding p(2) j replace_first_each_token [OF p(1)] vp Some u
            by (simp only: option.case)
        qed
      qed
    qed
  qed
qed

text \<open>The single pass for one placeholder puts its text at the first occurrence.\<close>

lemma replace_first_each_single:
  assumes q: "q \<in> set placeholders"
  shows "replace_first_each [q \<mapsto> v] s =
           (case indexOf q s of None \<Rightarrow> s | Some i \<Rightarrow> take i s @ v @ drop (i + length q) s)"
proof (induction s rule: length_induct)
  case (1 s)
  note tq = placeholder_token [OF q]
  then have qn: "q \<noteq> []" and ql: "length q = 6" by (auto simp: token_def)
  have ih: "\<And>r. length r < length s \<Longrightarrow> replace_first_each [q \<mapsto> v] r =
      (case indexOf q r of None \<Rightarrow> r | Some i \<Rightarrow> take i r @ v @ drop (i + length q) r)"
    using 1 by blast
  show ?case
  proof (cases s)
    case Nil
    with qn show ?thesis by simp
  next
    case (Cons c cs)
    show ?thesis
    proof (cases "find (\<lambda>p. prefix p s) placeholders")
      case None
      then have nq: "\<not> prefix q (c # cs)" using q by (simp add: find_placeholder_None Cons)
      have "replace_first_each [q \<mapsto> v] s = c # replace_first_each [q \<mapsto> v] cs"
        using None unfolding Cons by (rule replace_first_each_char)
      moreover have "replace_first_each [q \<mapsto> v] cs =
           (case indexOf q cs of None \<Rightarrow> cs | Some i \<Rightarrow> take i cs @ v @ drop (i + length q) cs)"
        by (rule ih) (simp add: Cons)
      moreover have "(case indexOf q s of None \<Rightarrow> s
                      | Some i \<Rightarrow> take i s @ v @ drop (i + length q) s)
          = c # (case indexOf q cs of None \<Rightarrow> cs
                  | Some i \<Rightarrow> take i cs @ v @ drop (i + length q) cs)"
        using nq by (simp add: Cons split: option.splits)
      ultimately show ?thesis by (simp only:)
    next
      case (Some p)
      from find_placeholder_Some [OF Some] obtain r where p: "p \<in> set placeholders" "s = p @ r"
        by blast
      note tp = placeholder_token [OF p(1)]
      from tp have len: "length r < length s" and pl: "length p = 6"
        by (simp_all add: p(2) token_def)
      show ?thesis
      proof (cases "p = q")
        case True
        have e: "[q \<mapsto> v](q := None) = Map.empty" by simp
        have "replace_first_each [q \<mapsto> v] s = v @ r"
          unfolding p(2) True replace_first_each_token [OF q]
          by (simp only: e replace_first_each_empty) simp
        moreover have "(case indexOf q s of None \<Rightarrow> s
                        | Some i \<Rightarrow> take i s @ v @ drop (i + length q) s) = v @ r"
          by (simp add: p(2) True indexOf_token_head [OF tq])
        ultimately show ?thesis by (simp only:)
      next
        case False
        then have qp: "q \<noteq> p" by simp
        have "replace_first_each [q \<mapsto> v] r =
           (case indexOf q r of None \<Rightarrow> r | Some i \<Rightarrow> take i r @ v @ drop (i + length q) r)"
          by (rule ih [OF len])
        moreover have "[q \<mapsto> v] p = None" using qp by simp
        moreover have "(case indexOf q s of None \<Rightarrow> s
                        | Some i \<Rightarrow> take i s @ v @ drop (i + length q) s)
            = p @ (case indexOf q r of None \<Rightarrow> r
                   | Some i \<Rightarrow> take i r @ v @ drop (i + length q) r)"
          by (simp add: p(2) indexOf_skip_token [OF tp tq qp] pl ql split: option.splits)
        ultimately show ?thesis
          unfolding p(2) replace_first_each_token [OF p(1)] by (simp only: option.case)
      qed
    qed
  qed
qed

lemma mode_text_no_dollar: "CHR ''$'' \<notin> set md \<Longrightarrow> mode_text md s = md"
  by (simp add: mode_text_def getSubstitution_no_dollar split: option.splits)

lemma js_replace_mode_text:
  "js_replace ''{mode}'' md s = replace_first_each [''{mode}'' \<mapsto> mode_text md s] s"
proof -
  have "''{mode}'' \<in> set placeholders" by (simp add: placeholders_def)
  from replace_first_each_single [OF this] show ?thesis
    by (simp add: js_replace_def mode_text_def split: option.splits)
qed

text \<open>
  C9: \<open>buildFilename\<close> replaces only the first occurrence of each placeholder. The
  filename is the template in which, read from left to right, the first \<open>{date}\<close>, the
  first \<open>{time}\<close>, the first \<open>{freq}\<close> and the first \<open>{mode}\<close> are replaced by the date,
  the time, the frequency and the mode text, and everything else, every later occurrence
  of a placeholder too, is copied as it is written. The mode text is the mode string
  itself when it has no dollar sign.
\<close>

theorem buildFilename_replaces_first_occurrence_of_each_placeholder:
  "let d = (case now of Some n \<Rightarrow> n | None \<Rightarrow> clock);
       vals = [''{date}'' \<mapsto> date_string d, ''{time}'' \<mapsto> time_string d,
               ''{freq}'' \<mapsto> String_int freq];
       mode_string = mode_text md (replace_first_each vals template)
   in buildFilename template freq md now clock
        = replace_first_each (vals(''{mode}'' \<mapsto> mode_string)) template
      \<and> (CHR ''$'' \<notin> set md \<longrightarrow> mode_string = md)"
proof -
  define d where "d = (case now of Some n \<Rightarrow> n | None \<Rightarrow> clock)"
  define t1 where "t1 = js_replace ''{date}'' (date_string d) template"
  define t2 where "t2 = js_replace ''{time}'' (time_string d) t1"
  define t3 where "t3 = js_replace ''{freq}'' (String_int freq) t2"
  define m where "m = mode_text md t3"
  have ph: "''{date}'' \<in> set placeholders" "''{time}'' \<in> set placeholders"
    "''{freq}'' \<in> set placeholders"
    by (simp_all add: placeholders_def)
  have b: "buildFilename template freq md now clock = js_replace ''{mode}'' md t3"
    by (simp add: buildFilename_def Let_def d_def date_string_def time_string_def
        t1_def t2_def t3_def)
  have o: "[''{date}'' \<mapsto> date_string d, ''{time}'' \<mapsto> time_string d,
            ''{freq}'' \<mapsto> String_int freq]
         = [''{freq}'' \<mapsto> String_int freq, ''{time}'' \<mapsto> time_string d,
            ''{date}'' \<mapsto> date_string d]"
    by (auto simp: fun_upd_def)
  have o4: "[''{date}'' \<mapsto> date_string d, ''{time}'' \<mapsto> time_string d,
             ''{freq}'' \<mapsto> String_int freq, ''{mode}'' \<mapsto> m]
         = [''{mode}'' \<mapsto> m, ''{freq}'' \<mapsto> String_int freq, ''{time}'' \<mapsto> time_string d,
            ''{date}'' \<mapsto> date_string d]"
    by (auto simp: fun_upd_def)
  have 3: "replace_first_each [''{freq}'' \<mapsto> String_int freq, ''{time}'' \<mapsto> time_string d,
             ''{date}'' \<mapsto> date_string d] template = t3"
    unfolding t3_def t2_def t1_def
    by (simp add: replace_first_each_peel [OF ph(1) plain_date_string]
        replace_first_each_peel [OF ph(2) plain_time_string]
        replace_first_each_peel [OF ph(3) plain_String_int] replace_first_each_empty)
  have 4: "replace_first_each [''{mode}'' \<mapsto> m, ''{freq}'' \<mapsto> String_int freq,
             ''{time}'' \<mapsto> time_string d, ''{date}'' \<mapsto> date_string d] template
         = replace_first_each [''{mode}'' \<mapsto> m] t3"
    unfolding t3_def t2_def t1_def
    by (simp add: replace_first_each_peel [OF ph(1) plain_date_string]
        replace_first_each_peel [OF ph(2) plain_time_string]
        replace_first_each_peel [OF ph(3) plain_String_int])
  have "buildFilename template freq md now clock = replace_first_each [''{mode}'' \<mapsto> m] t3"
    unfolding b m_def by (rule js_replace_mode_text)
  then have "buildFilename template freq md now clock
      = replace_first_each [''{date}'' \<mapsto> date_string d, ''{time}'' \<mapsto> time_string d,
             ''{freq}'' \<mapsto> String_int freq, ''{mode}'' \<mapsto> m] template"
    by (simp only: o4 4)
  moreover have "CHR ''$'' \<notin> set md \<longrightarrow> m = md"
    by (simp add: m_def mode_text_no_dollar)
  ultimately show ?thesis
    unfolding Let_def d_def [symmetric] o 3 m_def [symmetric] by simp
qed

theorem buildFilename_replaces_first_occurrence_of_each_placeholder_witness:
  "CHR ''$'' \<notin> set ''FM'' \<and>
   buildFilename ''{mode}_{date}_{mode}_{date}_{freq}'' 145500000 ''FM'' (Some example_date)
       example_date
     = replace_first_each
         [''{date}'' \<mapsto> date_string example_date, ''{time}'' \<mapsto> time_string example_date,
          ''{freq}'' \<mapsto> String_int 145500000, ''{mode}'' \<mapsto> ''FM'']
         ''{mode}_{date}_{mode}_{date}_{freq}'' \<and>
   replace_first_each
       [''{date}'' \<mapsto> date_string example_date, ''{time}'' \<mapsto> time_string example_date,
        ''{freq}'' \<mapsto> String_int 145500000, ''{mode}'' \<mapsto> ''FM'']
       ''{mode}_{date}_{mode}_{date}_{freq}''
     = ''FM_20260221_{mode}_{date}_145500000''"
proof -
  have d: "CHR ''$'' \<notin> set ''FM''" by simp
  have r: "replace_first_each
       [''{date}'' \<mapsto> date_string example_date, ''{time}'' \<mapsto> time_string example_date,
        ''{freq}'' \<mapsto> String_int 145500000, ''{mode}'' \<mapsto> ''FM'']
       ''{mode}_{date}_{mode}_{date}_{freq}''
     = ''FM_20260221_{mode}_{date}_145500000''"
    by (simp add: placeholders_def date_string_def example_date_def pad_def padStart_def
        String_int_def string_of_nat_digit string_of_nat_digits digit_char_def)
  from buildFilename_replaces_first_occurrence_of_each_placeholder
    [where now = "Some example_date" and clock = example_date and freq = 145500000
       and md = "''FM''" and template = "''{mode}_{date}_{mode}_{date}_{freq}''"]
  have "buildFilename ''{mode}_{date}_{mode}_{date}_{freq}'' 145500000 ''FM''
          (Some example_date) example_date
     = replace_first_each
         [''{date}'' \<mapsto> date_string example_date, ''{time}'' \<mapsto> time_string example_date,
          ''{freq}'' \<mapsto> String_int 145500000, ''{mode}'' \<mapsto> ''FM'']
         ''{mode}_{date}_{mode}_{date}_{freq}''"
    unfolding Let_def by (simp del: replace_first_each.simps)
  with d r show ?thesis by (simp only: simp_thms)
qed

section \<open>Properties of the Command Channel\<close>

subsection \<open>\<open>disconnect\<close>\<close>

lemma disconnect_client:
  "client (disconnect w) = \<lparr>ws = None, messageListeners = []\<rparr>"
  by (simp add: disconnect_def Let_def split: option.splits)

text \<open>
  C7: \<open>disconnect\<close> is idempotent, and after it the socket reference is \<open>null\<close> and the
  listener list is empty, whatever the client held before (an open socket, a connecting
  one, a closing or closed one, or none).
\<close>

theorem disconnect_idempotent:
  "disconnect (disconnect w) = disconnect w \<and>
   ws (client (disconnect w)) = None \<and>
   messageListeners (client (disconnect w)) = []"
proof -
  have c: "client (disconnect w) = \<lparr>ws = None, messageListeners = []\<rparr>"
    by (rule disconnect_client)
  have "disconnect (disconnect w)
      = (disconnect w)\<lparr>client := (client (disconnect w))\<lparr>messageListeners := []\<rparr>\<rparr>"
    by (subst disconnect_def) (simp add: c Let_def)
  also have "\<dots> = disconnect w" by (simp add: c)
  finally show ?thesis by (simp add: c)
qed

subsection \<open>\<open>sendCommand\<close>: timeout and removal of the listener\<close>

lemma filter_remove_listener_other:
  "j \<noteq> k \<Longrightarrow> filter (\<lambda>l. call_id l = k) (remove_listener j ls) = filter (\<lambda>l. call_id l = k) ls"
  by (induction ls) auto

lemma filter_remove_listener_same:
  "filter (\<lambda>l. call_id l = k) (remove_listener k ls) = tl (filter (\<lambda>l. call_id l = k) ls)"
  by (induction ls) auto

lemma set_remove_listener: "set (remove_listener k ls) \<subseteq> set ls"
  by (induction ls) auto

lemma cleanup_fields [simp]:
  "messageListeners (client (cleanup j w)) = remove_listener j (messageListeners (client w))"
  "timers (cleanup j w) = filter (\<lambda>t. timer_call t \<noteq> j) (timers w)"
  "promises (cleanup j w) = promises w"
  "sockets (cleanup j w) = sockets w"
  "next_call (cleanup j w) = next_call w"
  "ws (client (cleanup j w)) = ws (client w)"
  by (simp_all add: cleanup_def removeMessageListener_def)

lemma settle_fields [simp]:
  "client (settle j out w) = client w"
  "timers (settle j out w) = timers w"
  "promises (settle j out w) k = (if j = k \<and> promises w k = Pending then out else promises w k)"
  "sockets (settle j out w) = sockets w"
  "next_call (settle j out w) = next_call w"
  by (simp_all add: settle_def)

lemma filter_timers_other:
  "j \<noteq> k \<Longrightarrow> filter (\<lambda>t. timer_call t = k) (filter (\<lambda>t. timer_call t \<noteq> j) ts)
     = filter (\<lambda>t. timer_call t = k) ts"
  by (induction ts) auto

lemma filter_timers_same:
  "filter (\<lambda>t. timer_call t = k) (filter (\<lambda>t. timer_call t \<noteq> k) ts) = []"
  by (induction ts) auto

lemma pending_cleanup_settle_other:
  "pending_call k e ms w \<Longrightarrow> j \<noteq> k \<Longrightarrow> pending_call k e ms (settle j out (cleanup j w))"
  by (simp add: pending_call_def filter_remove_listener_other filter_timers_other
      del: filter_filter)

lemma released_cleanup_settle:
  "released k w \<Longrightarrow> released k (settle j out (cleanup j w))"
  using set_remove_listener [of j "messageListeners (client w)"]
  by (auto simp: released_def)

lemma released_after_cleanup:
  "pending_call k e ms w \<Longrightarrow> released k (settle k out (cleanup k w))"
proof -
  assume p: "pending_call k e ms w"
  have "filter (\<lambda>l. call_id l = k) (messageListeners (client (settle k out (cleanup k w)))) = []"
    using p by (simp add: pending_call_def filter_remove_listener_same)
  moreover have "filter (\<lambda>t. timer_call t = k) (timers (settle k out (cleanup k w))) = []"
    by (simp add: filter_timers_same del: filter_filter)
  ultimately show ?thesis
    unfolding released_def by (auto simp: filter_empty_conv)
qed

lemma pending_listener_type:
  assumes "pending_call k e ms w" "l \<in> set (messageListeners (client w))" "call_id l = k"
  shows "expectedType l = e"
proof -
  from assms(2,3) have "l \<in> set (filter (\<lambda>l. call_id l = k) (messageListeners (client w)))"
    by simp
  with assms(1) show ?thesis by (simp add: pending_call_def)
qed

lemma pending_call_listener:
  "pending_call k e ms w \<Longrightarrow> call_id l \<noteq> k \<or> \<not> matches msg (expectedType l) \<Longrightarrow>
   pending_call k e ms (call_listener msg w l)"
  by (auto simp: call_listener_def pending_cleanup_settle_other)

lemma pending_foldl_call_listener:
  "pending_call k e ms w \<Longrightarrow>
   \<forall>l\<in>set ls. call_id l \<noteq> k \<or> \<not> matches msg (expectedType l) \<Longrightarrow>
   pending_call k e ms (foldl (call_listener msg) w ls)"
proof (induction ls arbitrary: w)
  case Nil
  then show ?case by simp
next
  case (Cons l ls)
  from Cons.prems have "pending_call k e ms (call_listener msg w l)"
    by (intro pending_call_listener) auto
  with Cons show ?case by simp
qed

lemma pending_on_message:
  assumes "pending_call k e ms w" "quiet_for e k (Message a f)"
  shows "pending_call k e ms (on_message a f w)"
proof (cases f)
  case Unparsable
  with assms(1) show ?thesis by (simp add: on_message_def)
next
  case (Parsed msg)
  with assms(2) have n: "\<not> matches msg e" by simp
  have "\<forall>l\<in>set (messageListeners (client w)). call_id l \<noteq> k \<or> \<not> matches msg (expectedType l)"
    using pending_listener_type [OF assms(1)] n by blast
  from pending_foldl_call_listener [OF assms(1) this] assms(1) Parsed show ?thesis
    by (simp add: on_message_def)
qed

lemma pending_on_timeout:
  "pending_call k e ms w \<Longrightarrow> j \<noteq> k \<Longrightarrow> pending_call k e ms (on_timeout j w)"
  by (simp add: on_timeout_def pending_cleanup_settle_other split: option.splits)

lemma pending_ws_step:
  "pending_call k e ms w \<Longrightarrow> quiet_for e k ev \<Longrightarrow> pending_call k e ms (ws_step w ev)"
  by (cases ev) (simp_all add: pending_on_message pending_on_timeout)

lemma pending_run_events:
  "pending_call k e ms w \<Longrightarrow> list_all (quiet_for e k) es \<Longrightarrow> pending_call k e ms (run_events es w)"
  unfolding run_events_def
  by (induction es arbitrary: w) (simp_all add: pending_ws_step)


lemma call_listener_frame [simp]:
  "sockets (call_listener msg w l) = sockets w"
  "ws (client (call_listener msg w l)) = ws (client w)"
  "next_call (call_listener msg w l) = next_call w"
  by (simp_all add: call_listener_def)

lemma foldl_call_listener_frame [simp]:
  "sockets (foldl (call_listener msg) w ls) = sockets w"
  "ws (client (foldl (call_listener msg) w ls)) = ws (client w)"
  "next_call (foldl (call_listener msg) w ls) = next_call w"
  by (induction ls arbitrary: w) simp_all

lemma ws_step_frame [simp]:
  "sockets (ws_step w ev) = sockets w"
  "ws (client (ws_step w ev)) = ws (client w)"
  "next_call (ws_step w ev) = next_call w"
  by (cases ev; simp add: on_message_def on_timeout_def split: option.splits frame.splits)+

lemma run_events_frame [simp]:
  "sockets (run_events es w) = sockets w"
  "ws (client (run_events es w)) = ws (client w)"
  "next_call (run_events es w) = next_call w"
  unfolding run_events_def by (induction es arbitrary: w) simp_all

lemma wf_cleanup_settle: "wf_world w \<Longrightarrow> wf_world (settle j out (cleanup j w))"
  using set_remove_listener [of j "messageListeners (client w)"]
  by (auto simp: wf_world_def list_all_iff)

lemma wf_call_listener: "wf_world w \<Longrightarrow> wf_world (call_listener msg w l)"
  by (simp add: call_listener_def wf_cleanup_settle)

lemma wf_foldl_call_listener: "wf_world w \<Longrightarrow> wf_world (foldl (call_listener msg) w ls)"
  by (induction ls arbitrary: w) (simp_all add: wf_call_listener)

lemma wf_ws_step: "wf_world w \<Longrightarrow> wf_world (ws_step w ev)"
  by (cases ev)
    (simp_all add: on_message_def on_timeout_def wf_foldl_call_listener wf_cleanup_settle
      split: option.splits frame.splits)

lemma wf_run_events: "wf_world w \<Longrightarrow> wf_world (run_events es w)"
  unfolding run_events_def by (induction es arbitrary: w) (simp_all add: wf_ws_step)

lemma isConnected_frame:
  "sockets w' = sockets w \<Longrightarrow> ws (client w') = ws (client w) \<Longrightarrow> isConnected w' = isConnected w"
  by (simp add: isConnected_def split: option.splits)

lemma sendCommand_open:
  assumes "wf_world w" "isConnected w"
  shows "pending_call (next_call w) e ms (sendCommand cmd e ms w)"
    and "wf_world (sendCommand cmd e ms w)"
    and "isConnected (sendCommand cmd e ms w)"
    and "next_call (sendCommand cmd e ms w) = Suc (next_call w)"
    and "onmessage (sockets (sendCommand cmd e ms w) a) = onmessage (sockets w a)"
    and "j \<noteq> next_call w \<Longrightarrow> promises (sendCommand cmd e ms w) j = promises w j"
proof -
  from assms(2) obtain b where b: "ws (client w) = Some b" "readyState (sockets w b) = OPEN"
    by (auto simp: isConnected_def split: option.splits)
  define k where "k = next_call w"
  have s: "sendCommand cmd e ms w =
      w\<lparr>next_call := Suc k, promises := (promises w)(k := Pending),
        timers := timers w @ [\<lparr>timer_call = k, timer_expected = e, timer_ms = ms\<rparr>],
        client := (client w)\<lparr>messageListeners :=
          messageListeners (client w) @ [\<lparr>call_id = k, expectedType = e\<rparr>]\<rparr>,
        sockets := (sockets w)(b := (sockets w b)\<lparr>sent := sent (sockets w b) @ [cmd]\<rparr>)\<rparr>"
    using b assms(2)
    by (simp add: sendCommand_def Let_def k_def addMessageListener_def socket_send_def)
  have f1: "filter (\<lambda>l. call_id l = k) (messageListeners (client w)) = []"
    using assms(1) by (auto simp: wf_world_def list_all_iff filter_empty_conv k_def)
  have f2: "filter (\<lambda>t. timer_call t = k) (timers w) = []"
    using assms(1) by (auto simp: wf_world_def list_all_iff filter_empty_conv k_def)
  show "pending_call (next_call w) e ms (sendCommand cmd e ms w)"
    unfolding s k_def [symmetric] by (simp add: pending_call_def f1 f2)
  show "wf_world (sendCommand cmd e ms w)"
    unfolding s using assms(1) by (auto simp: wf_world_def list_all_iff k_def)
  show "isConnected (sendCommand cmd e ms w)"
    unfolding s using b by (simp add: isConnected_def)
  show "next_call (sendCommand cmd e ms w) = Suc (next_call w)"
    unfolding s by (simp add: k_def)
  show "onmessage (sockets (sendCommand cmd e ms w) a) = onmessage (sockets w a)"
    unfolding s by simp
  show "j \<noteq> next_call w \<Longrightarrow> promises (sendCommand cmd e ms w) j = promises w j"
    unfolding s by (simp add: k_def)
qed

lemma find_filter: "find P xs = (case filter P xs of [] \<Rightarrow> None | x # _ \<Rightarrow> Some x)"
  by (induction xs) auto

lemma timeout_result:
  assumes "pending_call k e ms w"
  shows "promises (on_timeout k w) k = Rejected (timeout_message e ms)"
    and "released k (on_timeout k w)"
proof -
  from assms have f: "find (\<lambda>t. timer_call t = k) (timers w)
      = Some \<lparr>timer_call = k, timer_expected = e, timer_ms = ms\<rparr>"
    by (simp add: find_filter pending_call_def)
  have o: "on_timeout k w = settle k (Rejected (timeout_message e ms)) (cleanup k w)"
    by (simp add: on_timeout_def f)
  show "promises (on_timeout k w) k = Rejected (timeout_message e ms)"
    using assms by (simp add: o pending_call_def)
  show "released k (on_timeout k w)"
    unfolding o by (rule released_after_cleanup [OF assms])
qed

lemma done_call_listener:
  "promises w k = Resolved msg \<Longrightarrow> released k w \<Longrightarrow>
   promises (call_listener m w l) k = Resolved msg \<and> released k (call_listener m w l)"
  by (simp add: call_listener_def released_cleanup_settle)

lemma done_foldl_call_listener:
  "promises w k = Resolved msg \<Longrightarrow> released k w \<Longrightarrow>
   promises (foldl (call_listener m) w ls) k = Resolved msg \<and>
   released k (foldl (call_listener m) w ls)"
proof (induction ls arbitrary: w)
  case Nil
  then show ?case by simp
next
  case (Cons l ls)
  from done_call_listener [OF Cons.prems, of m l] Cons.IH show ?case by simp
qed

lemma match_foldl_call_listener:
  "pending_call k e ms w \<Longrightarrow> matches msg e \<Longrightarrow>
   \<forall>l\<in>set ls. call_id l = k \<longrightarrow> expectedType l = e \<Longrightarrow> \<exists>l\<in>set ls. call_id l = k \<Longrightarrow>
   promises (foldl (call_listener msg) w ls) k = Resolved msg \<and>
   released k (foldl (call_listener msg) w ls)"
proof (induction ls arbitrary: w)
  case Nil
  then show ?case by simp
next
  case (Cons l ls)
  show ?case
  proof (cases "call_id l = k")
    case True
    with Cons.prems have m: "matches msg (expectedType l)" by simp
    have c: "call_listener msg w l = settle k (Resolved msg) (cleanup k w)"
      using m True by (simp add: call_listener_def)
    have "promises (call_listener msg w l) k = Resolved msg"
      using Cons.prems(1) by (simp add: c pending_call_def)
    moreover have "released k (call_listener msg w l)"
      unfolding c by (rule released_after_cleanup [OF Cons.prems(1)])
    ultimately show ?thesis
      using done_foldl_call_listener [of "call_listener msg w l" k msg msg ls] by simp
  next
    case False
    then have p: "pending_call k e ms (call_listener msg w l)"
      using Cons.prems(1) by (intro pending_call_listener) simp_all
    from Cons.prems False have "\<exists>l\<in>set ls. call_id l = k" by auto
    with Cons.IH [OF p Cons.prems(2)] Cons.prems(3) show ?thesis by simp
  qed
qed

lemma match_result:
  assumes "pending_call k e ms w" "matches msg e" "onmessage (sockets w a)"
  shows "promises (on_message a (Parsed msg) w) k = Resolved msg"
    and "released k (on_message a (Parsed msg) w)"
proof -
  have t: "\<forall>l\<in>set (messageListeners (client w)). call_id l = k \<longrightarrow> expectedType l = e"
    using pending_listener_type [OF assms(1)] by blast
  have "\<lparr>call_id = k, expectedType = e\<rparr>
      \<in> set (filter (\<lambda>l. call_id l = k) (messageListeners (client w)))"
    using assms(1) by (simp add: pending_call_def)
  then have "\<lparr>call_id = k, expectedType = e\<rparr> \<in> set (messageListeners (client w))"
    by simp
  then have x: "\<exists>l\<in>set (messageListeners (client w)). call_id l = k"
    by (rule bexI [rotated]) simp
  from match_foldl_call_listener [OF assms(1,2) t x] assms(3)
  show "promises (on_message a (Parsed msg) w) k = Resolved msg"
    and "released k (on_message a (Parsed msg) w)"
    by (simp_all add: on_message_def)
qed

lemma settled_foldl_call_listener:
  "promises w k \<noteq> Pending \<Longrightarrow> promises (foldl (call_listener msg) w ls) k = promises w k"
  by (induction ls arbitrary: w) (simp_all add: call_listener_def)

lemma settled_on_message:
  "promises w k \<noteq> Pending \<Longrightarrow> promises (on_message a f w) k = promises w k"
  by (simp add: on_message_def settled_foldl_call_listener split: frame.splits)


text \<open>
  C5: a \<open>sendCommand\<close> call on an open channel, followed by any inbound frames none of
  which carries the expected type tag (and by timers of other calls), is still pending;
  when its timer then fires it is rejected with the timeout error and its listener is no
  longer in the list. If instead a frame with the expected type tag arrives, the call is
  resolved with that message and its listener is removed as well. After the timeout the
  channel is still open, and a second identical call is a call of its own: a matching
  frame resolves it and leaves the first call as it was, rejected.
\<close>

theorem sendCommand_timeout_and_listener_cleanup:
  assumes "wf_world w" and "isConnected w" and "list_all (quiet_for e (next_call w)) es"
  shows
    "let k = next_call w;
         w1 = run_events es (sendCommand cmd e ms w);
         w2 = on_timeout k w1;
         k' = next_call w2;
         w3 = sendCommand cmd e ms w2
     in promises w1 k = Pending \<and>
        promises w2 k = Rejected (timeout_message e ms) \<and>
        k \<notin> call_id ` set (messageListeners (client w2)) \<and>
        (\<forall>a msg. onmessage (sockets w a) \<and> matches msg e \<longrightarrow>
           promises (on_message a (Parsed msg) w1) k = Resolved msg \<and>
           k \<notin> call_id ` set (messageListeners (client (on_message a (Parsed msg) w1)))) \<and>
        isConnected w2 \<and> k' \<noteq> k \<and>
        (\<forall>a msg. onmessage (sockets w a) \<and> matches msg e \<longrightarrow>
           promises (on_message a (Parsed msg) w3) k' = Resolved msg \<and>
           promises (on_message a (Parsed msg) w3) k = Rejected (timeout_message e ms))"
proof -
  define k where "k = next_call w"
  define w0 where "w0 = sendCommand cmd e ms w"
  define w1 where "w1 = run_events es w0"
  define w2 where "w2 = on_timeout k w1"
  define w3 where "w3 = sendCommand cmd e ms w2"
  note s = sendCommand_open [OF assms(1,2), where e = e and ms = ms and cmd = cmd,
      folded w0_def k_def]
  have p1: "pending_call k e ms w1"
    unfolding w1_def using s(1) assms(3) [folded k_def] by (rule pending_run_events)
  have wf1: "wf_world w1" unfolding w1_def by (rule wf_run_events [OF s(2)])
  have c1: "isConnected w1"
    using s(3) isConnected_frame [of w1 w0] by (simp add: w1_def)
  have n1: "next_call w1 = Suc k" by (simp add: w1_def s(4))
  have h1: "onmessage (sockets w1 a) = onmessage (sockets w a)" for a
    by (simp add: w1_def s(5))
  have a1: "promises w1 k = Pending" using p1 by (simp add: pending_call_def)
  note t = timeout_result [OF p1, folded w2_def]
  have a3: "k \<notin> call_id ` set (messageListeners (client w2))"
    using t(2) by (simp add: released_def)
  have a4: "promises (on_message a (Parsed msg) w1) k = Resolved msg \<and>
      k \<notin> call_id ` set (messageListeners (client (on_message a (Parsed msg) w1)))"
    if "onmessage (sockets w a)" "matches msg e" for a msg
    using match_result [OF p1 that(2), of a] that(1) by (simp add: h1 released_def)
  have wf2: "wf_world w2" unfolding w2_def using wf_ws_step [OF wf1, of "TimerFired k"] by simp
  have f2: "sockets w2 = sockets w1" "ws (client w2) = ws (client w1)" "next_call w2 = Suc k"
    unfolding w2_def using ws_step_frame [of w1 "TimerFired k"] by (simp_all add: n1)
  have c2: "isConnected w2" using c1 isConnected_frame [OF f2(1,2)] by simp
  note s3 = sendCommand_open [OF wf2 c2, where e = e and ms = ms and cmd = cmd,
      folded w3_def, unfolded f2(3)]
  have h3: "onmessage (sockets w3 a) = onmessage (sockets w a)" for a
    by (simp add: s3(5) f2(1) h1)
  have r3: "promises w3 k = Rejected (timeout_message e ms)"
    using s3(6) [of k] t(1) by simp
  have a6: "promises (on_message a (Parsed msg) w3) (Suc k) = Resolved msg \<and>
      promises (on_message a (Parsed msg) w3) k = Rejected (timeout_message e ms)"
    if "onmessage (sockets w a)" "matches msg e" for a msg
    using match_result(1) [OF s3(1) that(2), of a] that(1)
      settled_on_message [of w3 k a "Parsed msg"] r3
    by (simp add: h3)
  show ?thesis
    unfolding Let_def k_def [symmetric] w0_def [symmetric] w1_def [symmetric]
      w2_def [symmetric] w3_def [symmetric] f2(3)
    using a1 t(1) a3 a4 c2 a6 by simp
qed

theorem sendCommand_timeout_and_listener_cleanup_witness:
  "wf_world example_world \<and> isConnected example_world \<and>
   list_all (quiet_for ''setFreqResult'' (next_call example_world))
     [Message 0 (Parsed (JObj [(''type'', JStr ''setModeResult''), (''success'', JBool True)])),
      Message 0 Unparsable] \<and>
   promises
     (on_timeout 0
       (run_events
         [Message 0 (Parsed (JObj [(''type'', JStr ''setModeResult''), (''success'', JBool True)])),
          Message 0 Unparsable]
         (sendCommand (JObj [(''type'', JStr ''setFreq''), (''port'', JNum 0), (''freq'', JNum 14074000)])
            ''setFreqResult'' 5000 example_world))) 0
     = Rejected (timeout_message ''setFreqResult'' 5000) \<and>
   messageListeners (client
     (on_timeout 0
       (run_events
         [Message 0 (Parsed (JObj [(''type'', JStr ''setModeResult''), (''success'', JBool True)])),
          Message 0 Unparsable]
         (sendCommand (JObj [(''type'', JStr ''setFreq''), (''port'', JNum 0), (''freq'', JNum 14074000)])
            ''setFreqResult'' 5000 example_world)))) = [] \<and>
   onmessage (sockets example_world 0) \<and>
   matches (JObj [(''type'', JStr ''setFreqResult''), (''success'', JBool True)]) ''setFreqResult'' \<and>
   promises
     (on_message 0 (Parsed (JObj [(''type'', JStr ''setFreqResult''), (''success'', JBool True)]))
       (run_events
         [Message 0 (Parsed (JObj [(''type'', JStr ''setModeResult''), (''success'', JBool True)])),
          Message 0 Unparsable]
         (sendCommand (JObj [(''type'', JStr ''setFreq''), (''port'', JNum 0), (''freq'', JNum 14074000)])
            ''setFreqResult'' 5000 example_world))) 0
     = Resolved (JObj [(''type'', JStr ''setFreqResult''), (''success'', JBool True)])"
proof -
  define cmd where
    "cmd = JObj [(''type'', JStr ''setFreq''), (''port'', JNum 0), (''freq'', JNum 14074000)]"
  define es where
    "es = [Message 0 (Parsed (JObj [(''type'', JStr ''setModeResult''), (''success'', JBool True)])),
           Message 0 Unparsable]"
  define reply where
    "reply = JObj [(''type'', JStr ''setFreqResult''), (''success'', JBool True)]"
  have h1: "wf_world example_world" by (simp add: wf_world_def example_world_def)
  have h2: "isConnected example_world"
    by (simp add: isConnected_def example_world_def example_socket_def)
  have n: "next_call example_world = 0" by (simp add: example_world_def)
  have h3: "list_all (quiet_for ''setFreqResult'' (next_call example_world)) es"
    by (simp add: es_def matches_def json_get_def)
  have h4: "onmessage (sockets example_world 0)"
    by (simp add: example_world_def example_socket_def)
  have h5: "matches reply ''setFreqResult''"
    by (simp add: reply_def matches_def json_get_def)
  have l: "messageListeners (client
     (on_timeout 0 (run_events es (sendCommand cmd ''setFreqResult'' 5000 example_world)))) = []"
    by (simp add: es_def cmd_def run_events_def on_message_def on_timeout_def sendCommand_def
        Let_def isConnected_def example_world_def example_socket_def socket_send_def
        addMessageListener_def call_listener_def matches_def json_get_def cleanup_def
        removeMessageListener_def settle_def)
  note t = sendCommand_timeout_and_listener_cleanup [OF h1 h2 h3,
      where cmd = cmd and ms = 5000, unfolded Let_def n]
  have a: "promises
      (on_timeout 0 (run_events es (sendCommand cmd ''setFreqResult'' 5000 example_world))) 0
     = Rejected (timeout_message ''setFreqResult'' 5000)"
    using t by (rule conjunct1 [OF conjunct2])
  have "\<forall>a msg. onmessage (sockets example_world a) \<and> matches msg ''setFreqResult'' \<longrightarrow>
      promises (on_message a (Parsed msg)
        (run_events es (sendCommand cmd ''setFreqResult'' 5000 example_world))) 0 = Resolved msg \<and>
      0 \<notin> call_id ` set (messageListeners (client (on_message a (Parsed msg)
        (run_events es (sendCommand cmd ''setFreqResult'' 5000 example_world)))))"
    using t by (rule conjunct1 [OF conjunct2 [OF conjunct2 [OF conjunct2]]])
  with h4 h5 have b: "promises (on_message 0 (Parsed reply)
      (run_events es (sendCommand cmd ''setFreqResult'' 5000 example_world))) 0 = Resolved reply"
    by blast
  from h1 h2 h3 a l h4 h5 b show ?thesis
    unfolding cmd_def es_def reply_def by (intro conjI)
qed

section \<open>Properties of the recording engine\<close>

subsection \<open>Fields after the basic steps\<close>

lemma emit_fields [simp]:
  "currentState (emit e s) = currentState s"
  "currentFreq (emit e s) = currentFreq s"
  "currentMode (emit e s) = currentMode s"
  "recordingElapsed (emit e s) = recordingElapsed s"
  "recordingTotal (emit e s) = recordingTotal s"
  "errorMessage (emit e s) = errorMessage s"
  "progressInterval (emit e s) = progressInterval s"
  "effects (emit e s) = effects s @ [e]"
  by (simp_all add: emit_def)

lemma setState_fields [simp]:
  "currentState (setState st err s) = st"
  "errorMessage (setState st err s) = err"
  "currentFreq (setState st err s) = currentFreq s"
  "currentMode (setState st err s) = currentMode s"
  "progressInterval (setState st err s) = progressInterval s"
  "effects (setState st err s) = effects s"
  "recordingElapsed (setState st err s) = (if st = idle then None else recordingElapsed s)"
  "recordingTotal (setState st err s) = (if st = idle then None else recordingTotal s)"
  by (simp_all add: setState_def Let_def)

lemma clearProgressInterval_fields [simp]:
  "currentState (clearProgressInterval s) = currentState s"
  "currentFreq (clearProgressInterval s) = currentFreq s"
  "currentMode (clearProgressInterval s) = currentMode s"
  "recordingElapsed (clearProgressInterval s) = recordingElapsed s"
  "recordingTotal (clearProgressInterval s) = recordingTotal s"
  "errorMessage (clearProgressInterval s) = errorMessage s"
  "progressInterval (clearProgressInterval s) = None"
  by (simp_all add: clearProgressInterval_def split: option.splits)


lemma sendToOffscreen_fields [simp]:
  "currentState (sendToOffscreen m s) = currentState s"
  "currentFreq (sendToOffscreen m s) = currentFreq s"
  "currentMode (sendToOffscreen m s) = currentMode s"
  "recordingElapsed (sendToOffscreen m s) = recordingElapsed s"
  "recordingTotal (sendToOffscreen m s) = recordingTotal s"
  "errorMessage (sendToOffscreen m s) = errorMessage s"
  "progressInterval (sendToOffscreen m s) = progressInterval s"
  "effects (sendToOffscreen m s)
     = effects s @ [SendToOffscreen (JObj (m @ [(''target'', JStr ''offscreen'')]))]"
  by (simp_all add: sendToOffscreen_def)

lemma new_effects_append [simp]: "new_effects s (s'\<lparr>effects := effects s @ es\<rparr>) = es"
  by (simp add: new_effects_def)


subsection \<open>The entry guard\<close>

text \<open>
  C2: a flow request while the state is neither \<open>idle\<close> nor \<open>error\<close> leaves every variable
  of the engine as it was and does one thing only: it writes the "already busy" warning
  to the log. No connection, no command, no offscreen document and no message to it.
\<close>

theorem executeRecordingFlow_busy_rejected:
  assumes "currentState s \<noteq> idle" and "currentState s \<noteq> error"
  shows "executeRecordingFlow env params s =
           s\<lparr>effects := effects s @
               [AddLog WARN ''Recording flow skipped: already busy''
                  (Some (JObj [(''currentState'', JStr (state_name (currentState s)))]))]\<rparr> \<and>
         new_effects s (executeRecordingFlow env params s) =
           [AddLog WARN ''Recording flow skipped: already busy''
              (Some (JObj [(''currentState'', JStr (state_name (currentState s)))]))]"
  using assms by (simp add: executeRecordingFlow_def emit_def new_effects_def)

theorem executeRecordingFlow_busy_rejected_witness:
  "currentState example_recording = recording \<and>
   executeRecordingFlow example_flow_env example_params example_recording =
     example_recording\<lparr>effects := effects example_recording @
       [AddLog WARN ''Recording flow skipped: already busy''
          (Some (JObj [(''currentState'', JStr ''recording'')]))]\<rparr>"
proof -
  have r: "currentState example_recording = recording"
    by (simp add: example_recording_def executeRecordingFlow_def flow_connect_def
        flow_setFreq_def flow_setMode_def flow_record_def command_failure_def Let_def
        example_flow_env_def example_settings_def initial_engine_def)
  from executeRecordingFlow_busy_rejected [of example_recording example_flow_env example_params]
  show ?thesis by (simp add: r)
qed


subsection \<open>A tune-frequency response with \<open>success\<close> false\<close>


lemma resetState_effects [simp]: "effects (resetState s) = effects s"
  by (simp add: resetState_def)





subsection \<open>The backup alarm\<close>





lemma example_recording_fields:
  "currentState example_recording = recording"
  "recordingElapsed example_recording = Some 0"
  "recordingTotal example_recording = Some 2700"
  "errorMessage example_recording = None"
  by (simp_all add: example_recording_def executeRecordingFlow_def flow_connect_def
      flow_setFreq_def flow_setMode_def flow_record_def command_failure_def Let_def
      example_flow_env_def example_settings_def example_params_def initial_engine_def)


subsection \<open>The error message and the progress counters\<close>

lemma eo_emit [simp]: "error_only_in_error (emit e s) = error_only_in_error s"
  by (simp add: error_only_in_error_def)

lemma eo_setState [simp]:
  "error_only_in_error (setState st err s) = (err \<noteq> None \<longrightarrow> st = error)"
  by (simp add: error_only_in_error_def)

lemma eo_updates [simp]:
  "error_only_in_error (s\<lparr>recordingElapsed := a\<rparr>) = error_only_in_error s"
  "error_only_in_error (s\<lparr>recordingTotal := b\<rparr>) = error_only_in_error s"
  "error_only_in_error (s\<lparr>currentFreq := c\<rparr>) = error_only_in_error s"
  "error_only_in_error (s\<lparr>currentMode := d\<rparr>) = error_only_in_error s"
  "error_only_in_error (s\<lparr>progressInterval := p\<rparr>) = error_only_in_error s"
  by (simp_all add: error_only_in_error_def)

lemma eo_clearProgressInterval [simp]:
  "error_only_in_error (clearProgressInterval s) = error_only_in_error s"
  by (simp add: error_only_in_error_def)

lemma eo_sendToOffscreen [simp]:
  "error_only_in_error (sendToOffscreen m s) = error_only_in_error s"
  by (simp add: error_only_in_error_def)

lemma eo_resetState: "error_only_in_error s \<Longrightarrow> error_only_in_error (resetState s)"
  by (simp add: resetState_def)

lemma vars_clear_interval [simp]: "vars (clear_interval w) = clearProgressInterval (vars w)"
  by (simp add: clear_interval_def)

text \<open>The error message is set together with the state, in every piece of every call.\<close>

lemmas worker_catches =
  flow_connect_catch_def flow_setFreq_catch_def flow_setMode_catch_def flow_start_catch_def
  stop_catch_def result_catch_def stop_after_try_def alarm_after_try_def
  flow_setFreq_settled_def flow_setMode_settled_def suspend_def finish_def Let_def

lemma eo_resume_cases:
  "case resume t r now today w of
     None \<Rightarrow> True
   | Some (w', t') \<Rightarrow> error_only_in_error (vars w) \<longrightarrow> error_only_in_error (vars w')"
  by (cases t; cases r)
     (simp_all add: worker_catches error_only_in_error_def split: option.splits)

lemma eo_resume:
  assumes "resume t r now today w = Some (w', t')" "error_only_in_error (vars w)"
  shows "error_only_in_error (vars w')"
  using eo_resume_cases [where t = t and r = r and now = now and today = today and w = w] assms
  by simp

lemma eo_call:
  assumes "error_only_in_error (vars w)"
  shows "call_executeRecordingFlow params w = Some (w', t') \<Longrightarrow> error_only_in_error (vars w')"
    and "call_stopRecording w = Some (w', t') \<Longrightarrow> error_only_in_error (vars w')"
    and "call_onStopAlarm w = Some (w', t') \<Longrightarrow> error_only_in_error (vars w')"
    and "call_handleOffscreenMessage msg w = Some (w', t') \<Longrightarrow> error_only_in_error (vars w')"
  using assms eo_resetState [OF assms]
  by (auto simp: call_executeRecordingFlow_def call_stopRecording_def call_onStopAlarm_def
      call_handleOffscreenMessage_def call_handleRecordingResult_def suspend_def finish_def
      Let_def split: if_splits OffscreenResponse.splits)

lemma vars_called: "called r = Some w' \<Longrightarrow> \<exists>w t. r = Some (w, t) \<and> vars w' = vars w"
  by (auto simp: called_def split: option.splits)

lemma vars_resumed: "resumed i r = Some w' \<Longrightarrow> \<exists>w t. r = Some (w, t) \<and> vars w' = vars w"
  by (auto simp: resumed_def split: option.splits)

lemma eo_worker_step:
  assumes "worker_step e w = Some w'" "error_only_in_error (vars w)"
  shows "error_only_in_error (vars w')"
proof (cases e)
  case (Call_executeRecordingFlow params)
  with assms(1) vars_called show ?thesis using eo_call(1) [OF assms(2)] by fastforce
next
  case Call_stopRecording
  with assms(1) vars_called show ?thesis using eo_call(2) [OF assms(2)] by fastforce
next
  case Call_resetState
  with assms show ?thesis by (auto simp: eo_resetState)
next
  case Stop_alarm_fired
  with assms(1) vars_called show ?thesis using eo_call(3) [OF assms(2)] by fastforce
next
  case (Offscreen_message msg)
  with assms(1) vars_called show ?thesis using eo_call(4) [OF assms(2)] by fastforce
next
  case (Interval_fired i now)
  with assms show ?thesis by (auto simp: Let_def split: if_splits)
next
  case (Promise_settled i r now today)
  with assms(1) have "resumed i (resume (tasks w ! i) r now today w) = Some w'"
    by (simp split: if_splits)
  from vars_resumed [OF this] show ?thesis using eo_resume [OF _ assms(2)] by fastforce
next
  case Worker_restarted
  with assms(1) show ?thesis
    by (auto simp: error_only_in_error_def initial_worker_def initial_engine_def)
qed

lemma eo_worker_run:
  "worker_run es w = Some w' \<Longrightarrow> error_only_in_error (vars w) \<Longrightarrow> error_only_in_error (vars w')"
proof (induction es arbitrary: w)
  case Nil
  then show ?case by simp
next
  case (Cons e es)
  from Cons.prems(1) obtain w1 where w1: "worker_step e w = Some w1" "worker_run es w1 = Some w'"
    by (auto split: option.splits)
  from Cons.IH [OF w1(2) eo_worker_step [OF w1(1) Cons.prems(2)]] show ?case .
qed

text \<open>The counters are cleared on entering \<open>idle\<close>, and written only on entering
  \<open>recording\<close>, in every piece of every call.\<close>

lemma counters_kept_refl [simp]: "counters_kept s s"
  by (simp add: counters_kept_def)

lemma counters_kept_resume_cases:
  "case resume t r now today w of
     None \<Rightarrow> True
   | Some (w', t') \<Rightarrow> counters_kept (vars w) (vars w')"
  by (cases t; cases r) (simp_all add: worker_catches counters_kept_def split: option.splits)

lemma counters_kept_resume:
  assumes "resume t r now today w = Some (w', t')"
  shows "counters_kept (vars w) (vars w')"
  using counters_kept_resume_cases [where t = t and r = r and now = now and today = today
      and w = w] assms
  by simp

lemma counters_kept_call:
  "call_executeRecordingFlow params w = Some (w', t') \<Longrightarrow> counters_kept (vars w) (vars w')"
  "call_stopRecording w = Some (w', t') \<Longrightarrow> counters_kept (vars w) (vars w')"
  "call_onStopAlarm w = Some (w', t') \<Longrightarrow> counters_kept (vars w) (vars w')"
  "call_handleOffscreenMessage msg w = Some (w', t') \<Longrightarrow>
     \<not> writes_counter (Offscreen_message msg) \<Longrightarrow> counters_kept (vars w) (vars w')"
  by (auto simp: call_executeRecordingFlow_def call_stopRecording_def call_onStopAlarm_def
      call_handleOffscreenMessage_def call_handleRecordingResult_def suspend_def finish_def
      Let_def resetState_def counters_kept_def split: if_splits OffscreenResponse.splits)

lemma counters_kept_worker_step:
  assumes "worker_step e w = Some w'" "\<not> writes_counter e"
  shows "counters_kept (vars w) (vars w')"
proof (cases e)
  case (Call_executeRecordingFlow params)
  with assms(1) vars_called show ?thesis using counters_kept_call(1) by fastforce
next
  case Call_stopRecording
  with assms(1) vars_called show ?thesis using counters_kept_call(2) by fastforce
next
  case Call_resetState
  with assms show ?thesis by (auto simp: resetState_def counters_kept_def)
next
  case Stop_alarm_fired
  with assms(1) vars_called show ?thesis using counters_kept_call(3) by fastforce
next
  case (Offscreen_message msg)
  with assms vars_called show ?thesis using counters_kept_call(4) by fastforce
next
  case (Interval_fired i now)
  with assms show ?thesis by simp
next
  case (Promise_settled i r now today)
  with assms(1) have "resumed i (resume (tasks w ! i) r now today w) = Some w'"
    by (simp split: if_splits)
  from vars_resumed [OF this] show ?thesis using counters_kept_resume by fastforce
next
  case Worker_restarted
  with assms(1) show ?thesis
    by (auto simp: counters_kept_def initial_worker_def initial_engine_def)
qed

text \<open>The two events that write a counter themselves leave the state as it is.\<close>

lemma writes_counter_state:
  assumes "worker_step e w = Some w'" "writes_counter e"
  shows "currentState (vars w') = currentState (vars w)"
proof (cases e)
  case (Offscreen_message msg)
  with assms show ?thesis
    by (cases msg)
       (auto simp: called_def call_handleOffscreenMessage_def finish_def split: option.splits)
next
  case (Interval_fired i now)
  with assms show ?thesis by (auto simp: Let_def split: if_splits)
qed (use assms in simp_all)

text \<open>
  C6 (amended): in every state the worker can reach, with the calls of its handlers
  interleaved at their awaits in any way, the error message is non-null only in the
  state \<open>error\<close>. The two counters are not null in every reachable state other than
  \<open>recording\<close> (the counterexample is below); what holds of them is this. Every step that
  takes the engine into \<open>idle\<close> leaves both counters null. And no step that ends outside
  \<open>recording\<close> sets a counter, the callback of an interval timer and the handling of a
  progress message apart: after it each counter is null or what it was before.
\<close>

theorem error_message_only_in_error_and_counters_cleared_entering_idle:
  assumes "worker_run es initial_worker = Some w"
  shows "(errorMessage (vars w) \<noteq> None \<longrightarrow> currentState (vars w) = error) \<and>
         (\<forall>e w'. worker_step e w = Some w' \<and>
                  currentState (vars w) \<noteq> idle \<and> currentState (vars w') = idle \<longrightarrow>
                  recordingElapsed (vars w') = None \<and> recordingTotal (vars w') = None) \<and>
         (\<forall>e w'. worker_step e w = Some w' \<and>
                  \<not> writes_counter e \<and> currentState (vars w') \<noteq> recording \<longrightarrow>
                  (recordingElapsed (vars w') = None \<or>
                   recordingElapsed (vars w') = recordingElapsed (vars w)) \<and>
                  (recordingTotal (vars w') = None \<or>
                   recordingTotal (vars w') = recordingTotal (vars w)))"
proof (intro conjI allI impI)
  have "error_only_in_error (vars initial_worker)"
    by (simp add: error_only_in_error_def initial_worker_def initial_engine_def)
  from eo_worker_run [OF assms this]
  show "errorMessage (vars w) \<noteq> None \<Longrightarrow> currentState (vars w) = error"
    by (simp add: error_only_in_error_def)
next
  fix e w'
  assume a: "worker_step e w = Some w' \<and> currentState (vars w) \<noteq> idle \<and>
             currentState (vars w') = idle"
  then have "\<not> writes_counter e" using writes_counter_state [of e w w'] by auto
  with a have "counters_kept (vars w) (vars w')"
    using counters_kept_worker_step [of e w w'] by blast
  with a show "recordingElapsed (vars w') = None" "recordingTotal (vars w') = None"
    by (simp_all add: counters_kept_def)
next
  fix e w'
  assume a: "worker_step e w = Some w' \<and> \<not> writes_counter e \<and>
             currentState (vars w') \<noteq> recording"
  then have "counters_kept (vars w) (vars w')"
    using counters_kept_worker_step [of e w w'] by blast
  with a show "recordingElapsed (vars w') = None \<or>
               recordingElapsed (vars w') = recordingElapsed (vars w)"
    and "recordingTotal (vars w') = None \<or> recordingTotal (vars w') = recordingTotal (vars w)"
    by (simp_all add: counters_kept_def)
qed

text \<open>The example runs, evaluated.\<close>

lemma worker_run_append:
  "worker_run (a @ b) w = (case worker_run a w of None \<Rightarrow> None | Some w' \<Rightarrow> worker_run b w')"
  by (induction a arbitrary: w) (simp_all split: option.splits)

lemmas worker_pieces =
  called_def resumed_def suspend_def finish_def clear_interval_def
  call_executeRecordingFlow_def call_stopRecording_def call_handleOffscreenMessage_def
  call_handleRecordingResult_def call_onStopAlarm_def stop_after_try_def alarm_after_try_def
  flow_setFreq_settled_def flow_setMode_settled_def command_failure_def
  fulfilled_def initial_worker_def initial_engine_def example_params_def example_settings_def
  Let_def

text \<open>
  A flow alone, with every promise fulfilled, leaves the module variables that
  \<open>executeRecordingFlow\<close> of the section before computes in one step, one interval timer
  and no suspended call.
\<close>

lemma worker_run_example_recording:
  "worker_run (events_until_recording @ events_recording_started) initial_worker
     = Some \<lparr>vars = example_recording, tickers = [0], tasks = []\<rparr>"
  by (simp add: events_until_recording_def events_recording_started_def worker_pieces
      example_recording_def example_flow_env_def executeRecordingFlow_def flow_connect_def
      flow_setFreq_def flow_setMode_def flow_record_def resetState_def)

lemma example_recording_interval: "progressInterval example_recording = Some 0"
  by (simp add: example_recording_def executeRecordingFlow_def flow_connect_def
      flow_setFreq_def flow_setMode_def flow_record_def command_failure_def Let_def
      example_flow_env_def example_settings_def example_params_def initial_engine_def)

lemma worker_run_recording_failed:
  "\<exists>w. worker_run events_recording_failed initial_worker = Some w \<and>
        currentState (vars w) = error \<and>
        errorMessage (vars w) = Some ''Recording failed: No audio data recorded'' \<and>
        recordingElapsed (vars w) = Some 0 \<and> recordingTotal (vars w) = Some 2700"
proof -
  have e: "events_recording_failed = (events_until_recording @ events_recording_started) @
     [Offscreen_message (RecordingResult False None None (Some ''No audio data recorded'')),
      fulfilled 0, fulfilled 0]"
    by (simp add: events_recording_failed_def)
  show ?thesis
    by (subst e, subst worker_run_append, subst worker_run_example_recording)
       (simp add: worker_pieces example_recording_fields example_recording_interval
          template_string_def)
qed

lemma worker_run_recording_saving:
  "\<exists>w. worker_run events_recording_saving initial_worker = Some w \<and>
        currentState (vars w) = saving \<and>
        recordingElapsed (vars w) = Some 0 \<and> recordingTotal (vars w) = Some 2700"
proof -
  have e: "events_recording_saving = (events_until_recording @ events_recording_started) @
     [Offscreen_message (RecordingResult True (Some ''blob:recording'') (Some 2700000) None),
      fulfilled 0]"
    by (simp add: events_recording_saving_def)
  show ?thesis
    by (subst e, subst worker_run_append, subst worker_run_example_recording)
       (simp add: worker_pieces example_recording_fields example_recording_interval)
qed

lemma worker_run_stopped_while_starting:
  "\<exists>w. worker_run events_stopped_while_starting initial_worker = Some w \<and>
        currentState (vars w) = idle \<and>
        recordingElapsed (vars w) = Some 3 \<and> recordingTotal (vars w) = None \<and>
        tickers w = [0] \<and> tasks w = []"
  by (simp add: events_stopped_while_starting_def events_until_recording_def
      events_recording_started_def worker_pieces)

text \<open>The first three steps of a flow that is called in \<open>idle\<close> with no other call
  suspended leave the counters as they are.\<close>

lemma next_flow_connecting:
  assumes "currentState (vars w) = idle" "tasks w = []"
  shows "\<exists>w'. worker_run
                [Call_executeRecordingFlow example_params,
                 Promise_settled 0 (Loaded example_settings) 0 example_date,
                 fulfilled 0] w = Some w' \<and>
              currentState (vars w') = connecting \<and>
              recordingElapsed (vars w') = recordingElapsed (vars w) \<and>
              recordingTotal (vars w') = recordingTotal (vars w) \<and>
              tasks w' = [Flow_connect example_params example_settings]"
  using assms by (simp add: worker_pieces)

lemma next_flow_setting_freq:
  assumes "tasks w = [Flow_connect example_params example_settings]"
  shows "\<exists>w'. worker_run [fulfilled 0, fulfilled 0] w = Some w' \<and>
              currentState (vars w') = setting_freq \<and>
              recordingElapsed (vars w') = recordingElapsed (vars w) \<and>
              recordingTotal (vars w') = recordingTotal (vars w) \<and>
              tasks w' = [Flow_setFreq example_params example_settings]"
  using assms by (simp add: worker_pieces)

lemma next_flow_setting_mode:
  assumes "tasks w = [Flow_setFreq example_params example_settings]"
  shows "\<exists>w'. worker_run
                [Promise_settled 0 (Answered True None) 0 example_date,
                 fulfilled 0, fulfilled 0] w = Some w' \<and>
              currentState (vars w') = setting_mode \<and>
              recordingElapsed (vars w') = recordingElapsed (vars w) \<and>
              recordingTotal (vars w') = recordingTotal (vars w)"
  using assms by (simp add: worker_pieces)

lemma worker_run_next_connecting:
  "\<exists>w. worker_run events_next_connecting initial_worker = Some w \<and>
        currentState (vars w) = connecting \<and>
        recordingElapsed (vars w) = Some 3 \<and> recordingTotal (vars w) = None \<and>
        tasks w = [Flow_connect example_params example_settings]"
proof -
  from worker_run_stopped_while_starting obtain w0
    where w0: "worker_run events_stopped_while_starting initial_worker = Some w0"
      "currentState (vars w0) = idle" "recordingElapsed (vars w0) = Some 3"
      "recordingTotal (vars w0) = None" "tasks w0 = []"
    by blast
  from next_flow_connecting [OF w0(2,5)] w0(3,4) show ?thesis
    unfolding events_next_connecting_def worker_run_append w0(1) by simp
qed

lemma worker_run_next_setting_freq:
  "\<exists>w. worker_run events_next_setting_freq initial_worker = Some w \<and>
        currentState (vars w) = setting_freq \<and>
        recordingElapsed (vars w) = Some 3 \<and> recordingTotal (vars w) = None \<and>
        tasks w = [Flow_setFreq example_params example_settings]"
proof -
  from worker_run_next_connecting obtain w0
    where w0: "worker_run events_next_connecting initial_worker = Some w0"
      "recordingElapsed (vars w0) = Some 3" "recordingTotal (vars w0) = None"
      "tasks w0 = [Flow_connect example_params example_settings]"
    by blast
  from next_flow_setting_freq [OF w0(4)] w0(2,3) show ?thesis
    unfolding events_next_setting_freq_def worker_run_append w0(1) by simp
qed

lemma worker_run_next_setting_mode:
  "\<exists>w. worker_run events_next_setting_mode initial_worker = Some w \<and>
        currentState (vars w) = setting_mode \<and>
        recordingElapsed (vars w) = Some 3 \<and> recordingTotal (vars w) = None"
proof -
  from worker_run_next_setting_freq obtain w0
    where w0: "worker_run events_next_setting_freq initial_worker = Some w0"
      "recordingElapsed (vars w0) = Some 3" "recordingTotal (vars w0) = None"
      "tasks w0 = [Flow_setFreq example_params example_settings]"
    by blast
  from next_flow_setting_mode [OF w0(4)] w0(2,3) show ?thesis
    unfolding events_next_setting_mode_def worker_run_append w0(1) by simp
qed

theorem error_message_only_in_error_and_counters_cleared_entering_idle_witness:
  "\<exists>w w'. worker_run events_recording_failed initial_worker = Some w \<and>
          errorMessage (vars w) \<noteq> None \<and> currentState (vars w) = error \<and>
          recordingElapsed (vars w) = Some 0 \<and> recordingTotal (vars w) = Some 2700 \<and>
          worker_step Call_resetState w = Some w' \<and> \<not> writes_counter Call_resetState \<and>
          currentState (vars w) \<noteq> idle \<and> currentState (vars w') = idle \<and>
          currentState (vars w') \<noteq> recording \<and>
          recordingElapsed (vars w') = None \<and> recordingTotal (vars w') = None"
proof -
  from worker_run_recording_failed obtain w
    where w: "worker_run events_recording_failed initial_worker = Some w"
      "errorMessage (vars w) = Some ''Recording failed: No audio data recorded''"
      "recordingElapsed (vars w) = Some 0" "recordingTotal (vars w) = Some 2700"
    by blast
  note t = error_message_only_in_error_and_counters_cleared_entering_idle [OF w(1)]
  from t [THEN conjunct1] w(2) have e: "currentState (vars w) = error" by simp
  define w' where "w' = w\<lparr>vars := resetState (vars w)\<rparr>"
  have s: "worker_step Call_resetState w = Some w'" by (simp add: w'_def)
  have i: "currentState (vars w') = idle" by (simp add: w'_def resetState_def e)
  from e have n: "currentState (vars w) \<noteq> idle" by simp
  from t [THEN conjunct2, THEN conjunct1, rule_format, of Call_resetState w'] s n i
  have c: "recordingElapsed (vars w') = None \<and> recordingTotal (vars w') = None" by blast
  from w e s n i c show ?thesis by (intro exI [of _ w] exI [of _ w']) simp
qed

text \<open>
  The claim as the specification has it, "both counters are null in every reachable
  state other than \<open>recording\<close>", fails in each of the six other states. After a failed
  recording the state is \<open>error\<close>, and while a finished recording is saved it is \<open>saving\<close>,
  with the counters of the recording: \<open>setState\<close> clears them for \<open>idle\<close> only. When
  \<open>stopRecording\<close> is called while the flow starts the recording, the flow sets its
  interval timer after \<open>clearProgressInterval()\<close> has run, nothing clears that timer, and
  it writes the elapsed seconds in \<open>idle\<close>; the next flow goes through \<open>connecting\<close>,
  \<open>setting_freq\<close> and \<open>setting_mode\<close> with that counter.
\<close>

theorem counters_not_null_outside_recording_counterexample:
  "counters_after events_recording_failed = Some (error, Some 0, Some 2700) \<and>
   counters_after events_recording_saving = Some (saving, Some 0, Some 2700) \<and>
   counters_after events_stopped_while_starting = Some (idle, Some 3, None) \<and>
   counters_after events_next_connecting = Some (connecting, Some 3, None) \<and>
   counters_after events_next_setting_freq = Some (setting_freq, Some 3, None) \<and>
   counters_after events_next_setting_mode = Some (setting_mode, Some 3, None)"
proof -
  from worker_run_recording_failed have 1:
    "counters_after events_recording_failed = Some (error, Some 0, Some 2700)"
    by (auto simp: counters_after_def)
  from worker_run_recording_saving have 2:
    "counters_after events_recording_saving = Some (saving, Some 0, Some 2700)"
    by (auto simp: counters_after_def)
  from worker_run_stopped_while_starting have 3:
    "counters_after events_stopped_while_starting = Some (idle, Some 3, None)"
    by (auto simp: counters_after_def)
  from worker_run_next_connecting have 4:
    "counters_after events_next_connecting = Some (connecting, Some 3, None)"
    by (auto simp: counters_after_def)
  from worker_run_next_setting_freq have 5:
    "counters_after events_next_setting_freq = Some (setting_freq, Some 3, None)"
    by (auto simp: counters_after_def)
  from worker_run_next_setting_mode have 6:
    "counters_after events_next_setting_mode = Some (setting_mode, Some 3, None)"
    by (auto simp: counters_after_def)
  from 1 2 3 4 5 6 show ?thesis by (intro conjI)
qed


end
